theory Spec2Isabelle
  imports Complex_Main "HOL-Library.Char_ord" "HOL-Library.List_Lexorder"
begin

section \<open>Numeric values\<close>

text \<open>
  The notebook computes with float64 values held in numpy arrays and pandas columns.
  A value is a real number, or one of the three special values of IEEE 754; the results
  of arithmetic are rounded to the nearest float64, ties to even, and overflow to an
  infinity.  The two zeros are not distinguished: a zero divisor is \<open>+0.0\<close>, which is what
  \<open>x - x\<close>, a count of zero and a sum of zeros give.  Array and column arithmetic never
  raises: numpy and pandas return \<open>inf\<close> and \<open>nan\<close> from a division by zero.
\<close>

datatype pyfloat = Fin real | PInf | NInf | NaN

definition pow2 :: "int \<Rightarrow> real" where
  "pow2 e = (if 0 \<le> e then 2 ^ nat e else 1 / 2 ^ nat (- e))"

text \<open>
  The exponent of a float64 lies between -1022 (also for the subnormal numbers) and
  1023: \<open>expo x\<close> is the integer part of the binary logarithm of \<open>\<bar>x\<bar>\<close>, found by halving
  or doubling, and kept within these bounds by the number of steps allowed.
\<close>

primrec halvings :: "nat \<Rightarrow> real \<Rightarrow> int" where
  "halvings 0 x = 0"
| "halvings (Suc n) x = (if x < 2 then 0 else halvings n (x / 2) + 1)"

primrec doublings :: "nat \<Rightarrow> real \<Rightarrow> int" where
  "doublings 0 x = 0"
| "doublings (Suc n) x = (if 1 \<le> x then 0 else doublings n (2 * x) - 1)"

definition expo :: "real \<Rightarrow> int" where
  "expo x = (if 1 \<le> \<bar>x\<bar> then halvings 1024 \<bar>x\<bar> else doublings 1022 \<bar>x\<bar>)"

definition round_half_even :: "real \<Rightarrow> int" where
  "round_half_even x =
     (let n = \<lfloor>x\<rfloor>; d = x - of_int n
      in if d < 1 / 2 then n else if 1 / 2 < d then n + 1 else if even n then n else n + 1)"

text \<open>
  \<open>round64 x\<close> is the float64 nearest to \<open>x\<close>: a multiple of \<open>2 ^ (expo x - 52)\<close>, or an
  infinity when that multiple reaches \<open>2 ^ 1024\<close>.
\<close>

definition round64 :: "real \<Rightarrow> pyfloat" where
  "round64 x =
     (let q = pow2 (expo x - 52); y = of_int (round_half_even (x / q)) * q
      in if 2 ^ 1024 \<le> \<bar>y\<bar> then (if 0 < x then PInf else NInf) else Fin y)"

fun fneg :: "pyfloat \<Rightarrow> pyfloat" where
  "fneg (Fin x) = Fin (- x)"
| "fneg PInf = NInf"
| "fneg NInf = PInf"
| "fneg NaN = NaN"

fun fadd :: "pyfloat \<Rightarrow> pyfloat \<Rightarrow> pyfloat" where
  "fadd NaN y = NaN"
| "fadd x NaN = NaN"
| "fadd (Fin x) (Fin y) = round64 (x + y)"
| "fadd PInf NInf = NaN"
| "fadd NInf PInf = NaN"
| "fadd PInf y = PInf"
| "fadd x PInf = PInf"
| "fadd NInf y = NInf"
| "fadd x NInf = NInf"

definition fsub :: "pyfloat \<Rightarrow> pyfloat \<Rightarrow> pyfloat" where
  "fsub x y = fadd x (fneg y)"

fun fsgn :: "pyfloat \<Rightarrow> int" where
  "fsgn (Fin x) = (if x = 0 then 0 else if 0 < x then 1 else - 1)"
| "fsgn PInf = 1"
| "fsgn NInf = - 1"
| "fsgn NaN = 0"

fun fmul :: "pyfloat \<Rightarrow> pyfloat \<Rightarrow> pyfloat" where
  "fmul NaN y = NaN"
| "fmul x NaN = NaN"
| "fmul (Fin x) (Fin y) = round64 (x * y)"
| "fmul x y =
     (let s = fsgn x * fsgn y
      in if s = 0 then NaN else if 0 < s then PInf else NInf)"

fun fdiv :: "pyfloat \<Rightarrow> pyfloat \<Rightarrow> pyfloat" where
  "fdiv NaN y = NaN"
| "fdiv x NaN = NaN"
| "fdiv (Fin x) (Fin y) =
     (if y \<noteq> 0 then round64 (x / y)
      else if x = 0 then NaN
      else if 0 < x then PInf else NInf)"
| "fdiv (Fin x) y = Fin 0"
| "fdiv PInf (Fin y) = (if 0 \<le> y then PInf else NInf)"
| "fdiv NInf (Fin y) = (if 0 \<le> y then NInf else PInf)"
| "fdiv x y = NaN"

definition notna :: "pyfloat \<Rightarrow> bool" where
  "notna v = (v \<noteq> NaN)"

text \<open>
  The sums of pandas' group reductions are compensated (Kahan) sums: beside the running
  sum \<open>sumx\<close> they keep the rounding error of the last addition, \<open>compensation\<close>, and take
  it off the next value; a compensation that is NaN (after an infinite value) is reset.
  \<^verbatim>\<open>
  y = val - compensation
  t = sumx + y
  compensation = t - sumx - y
  if compensation != compensation: compensation = 0
  sumx = t
  \<close>
\<close>

definition kahan_step :: "pyfloat \<times> pyfloat \<Rightarrow> pyfloat \<Rightarrow> pyfloat \<times> pyfloat" where
  "kahan_step acc val =
     (let sumx = fst acc; compensation = snd acc;
          y = fsub val compensation;
          t = fadd sumx y;
          c = fsub (fsub t sumx) y
      in (t, if c = NaN then Fin 0 else c))"

definition kahan_sum :: "pyfloat list \<Rightarrow> pyfloat" where
  "kahan_sum vs = fst (foldl kahan_step (Fin 0, Fin 0) vs)"

text \<open>
  pandas reductions leave missing values out: \<open>mean\<close> divides the sum of the values
  that are not NaN by their number (a group with none gives NaN), \<open>sum\<close> of no value
  is zero.
\<close>

definition mean_skipna :: "pyfloat list \<Rightarrow> pyfloat" where
  "mean_skipna vs =
     (let xs = filter notna vs in fdiv (kahan_sum xs) (Fin (real (length xs))))"

definition sum_skipna :: "pyfloat list \<Rightarrow> pyfloat" where
  "sum_skipna vs = kahan_sum (filter notna vs)"






section \<open>Integer columns\<close>

text \<open>
  A numeric column of a table has a dtype.  The cells of a column are written as
  \<open>pyfloat\<close> values whatever the dtype; a cell of an integer column is \<open>Fin k\<close> for an
  integer \<open>k\<close> within the range of the dtype, and \<open>int_of\<close> reads it.  The arithmetic of
  an integer column wraps around silently.
\<close>

datatype dtype = Int32 | Int64 | Float64

definition wrap :: "nat \<Rightarrow> int \<Rightarrow> int" where
  "wrap bits x = (x + 2 ^ (bits - 1)) mod 2 ^ bits - 2 ^ (bits - 1)"

fun int_of :: "pyfloat \<Rightarrow> int" where
  "int_of (Fin x) = \<lfloor>x\<rfloor>"
| "int_of v = 0"

definition fits32 :: "pyfloat \<Rightarrow> bool" where
  "fits32 v = (- (2 ^ 31) \<le> int_of v \<and> int_of v < 2 ^ 31)"

text \<open>
  The sum of one group of a column: pandas adds integer columns as 64-bit integers and
  float columns as compensated sums without the missing values.
\<close>

definition sum_dtype :: "dtype \<Rightarrow> pyfloat list \<Rightarrow> pyfloat" where
  "sum_dtype dt vs =
     (if dt = Float64 then sum_skipna vs
      else Fin (of_int (wrap 64 (sum_list (map int_of vs)))))"

text \<open>
  The column of the sums gets the dtype of the column that was summed when every sum
  fits it, and stays a 64-bit column otherwise.
\<close>

definition sum_result_dtype :: "dtype \<Rightarrow> pyfloat list \<Rightarrow> dtype" where
  "sum_result_dtype dt totals = (if dt = Int32 \<and> \<not> list_all fits32 totals then Int64 else dt)"

text \<open>\<open>column * 100\<close> is computed in the dtype of the column.\<close>

definition mul100 :: "dtype \<Rightarrow> pyfloat \<Rightarrow> pyfloat" where
  "mul100 dt v =
     (case dt of
        Int32 \<Rightarrow> Fin (of_int (wrap 32 (int_of v * 100)))
      | Int64 \<Rightarrow> Fin (of_int (wrap 64 (int_of v * 100)))
      | Float64 \<Rightarrow> fmul v (Fin 100))"

text \<open>\<open>/\<close> on columns is true division: both operands are converted to float64.\<close>

definition to_float64 :: "dtype \<Rightarrow> pyfloat \<Rightarrow> pyfloat" where
  "to_float64 dt v = (if dt = Float64 then v else round64 (of_int (int_of v)))"

section \<open>Raster aggregation\<close>

text \<open>
  A raster dataset as \<open>rasterio\<close> opens it: band 1 as a two-dimensional array (a list of
  rows of equal length, each sample as \<open>float(array[row, col])\<close> gives it), the affine
  transform, and the dataset's declared no-data value.
  \<open>Affine(a, b, c, d, e, f) * (col, row)\<close> is \<open>(a*col + b*row + c, d*col + e*row + f)\<close>.
\<close>

record affine =
  af_a :: real
  af_b :: real
  af_c :: real
  af_d :: real
  af_e :: real
  af_f :: real

record raster =
  array :: "pyfloat list list"
  transform :: affine
  nodata :: "pyfloat option"

definition affine_mul :: "affine \<Rightarrow> nat \<times> nat \<Rightarrow> real \<times> real" where
  "affine_mul t p =
     (case p of (col, row) \<Rightarrow>
        (af_a t * real col + af_b t * real row + af_c t,
         af_d t * real col + af_e t * real row + af_f t))"

definition shape0 :: "pyfloat list list \<Rightarrow> nat" where
  "shape0 arr = length arr"

definition shape1 :: "pyfloat list list \<Rightarrow> nat" where
  "shape1 arr = (case arr of [] \<Rightarrow> 0 | r # _ \<Rightarrow> length r)"

text \<open>
  \<open>h3.latlng_to_cell\<close> belongs to an external library; the functions that call it take
  it as the parameter \<open>idx\<close>, of latitude, longitude and resolution, which returns a
  cell identifier or raises.  An exception raised inside a loop ends the loop:
  \<open>collect\<close> runs a fallible function over a list in order and stops at the first error.
\<close>

fun collect :: "('a \<Rightarrow> 'e + 'b) \<Rightarrow> 'a list \<Rightarrow> 'e + 'b list" where
  "collect g [] = Inr []"
| "collect g (x # xs) =
     (case g x of
        Inl e \<Rightarrow> Inl e
      | Inr y \<Rightarrow> (case collect g xs of Inl e \<Rightarrow> Inl e | Inr ys \<Rightarrow> Inr (y # ys)))"

text \<open>The index pairs of the two nested \<open>for\<close> loops, rows outermost.\<close>

definition pixel_indices :: "pyfloat list list \<Rightarrow> (nat \<times> nat) list" where
  "pixel_indices arr =
     concat (map (\<lambda>row. map (\<lambda>col. (row, col)) [0..<shape1 arr]) [0..<shape0 arr])"

text \<open>The body of the inner loop: the tuple appended to \<open>values\<close> for one pixel.\<close>

definition pixel_tuple ::
  "(real \<Rightarrow> real \<Rightarrow> int \<Rightarrow> 'e + 'c) \<Rightarrow> raster \<Rightarrow> int \<Rightarrow> nat \<times> nat \<Rightarrow> 'e + ('c \<times> pyfloat)" where
  "pixel_tuple idx r resolution p =
     (case p of (row, col) \<Rightarrow>
        (case affine_mul (transform r) (col, row) of (lon, lat) \<Rightarrow>
           (case idx lat lon resolution of
              Inl e \<Rightarrow> Inl e
            | Inr h3_index \<Rightarrow> Inr (h3_index, array r ! row ! col))))"

text \<open>The list \<open>values\<close> as it stands when the loops have ended.\<close>

definition pixel_values ::
  "(real \<Rightarrow> real \<Rightarrow> int \<Rightarrow> 'e + 'c) \<Rightarrow> raster \<Rightarrow> int \<Rightarrow> 'e + ('c \<times> pyfloat) list" where
  "pixel_values idx r resolution =
     collect (pixel_tuple idx r resolution) (pixel_indices (array r))"

text \<open>
  \<open>df.groupby('h3_index', as_index=False).mean()\<close>: one row per distinct key, the keys
  in ascending order, each with the mean of the group's values.
\<close>

definition group_of :: "'c \<Rightarrow> ('c \<times> 'v) list \<Rightarrow> 'v list" where
  "group_of k tbl = map snd (filter (\<lambda>p. fst p = k) tbl)"

definition group_keys :: "('c::linorder \<times> 'v) list \<Rightarrow> 'c list" where
  "group_keys tbl = sort (remdups (map fst tbl))"

definition groupby_mean :: "('c::linorder \<times> pyfloat) list \<Rightarrow> ('c \<times> pyfloat) list" where
  "groupby_mean tbl = map (\<lambda>k. (k, mean_skipna (group_of k tbl))) (group_keys tbl)"

text \<open>
  \<open>aggregate(raster, resolution, field)\<close>.  The label \<open>field\<close> only names the value
  column of the result and is left out.
\<close>

definition aggregate ::
  "(real \<Rightarrow> real \<Rightarrow> int \<Rightarrow> 'e + 'c::linorder) \<Rightarrow> raster \<Rightarrow> int \<Rightarrow> 'e + ('c \<times> pyfloat) list" where
  "aggregate idx r resolution =
     (case pixel_values idx r resolution of
        Inl e \<Rightarrow> Inl e
      | Inr values \<Rightarrow> Inr (groupby_mean values))"

section \<open>Normalisation\<close>


section \<open>Census records\<close>

text \<open>
  The census table: one feature per row, a point geometry and the four attribute columns
  the notebook keeps, each with its dtype.  The column \<open>h3_index\<close> is absent (\<open>None\<close>)
  until it is assigned.  Tables are objects: a variable holds a reference into a store
  of tables, so that a function which changes its argument changes what its caller sees.
\<close>

record feature =
  geom_x :: real
  geom_y :: real
  col_T :: pyfloat
  col_M :: pyfloat
  col_F :: pyfloat
  col_EMP :: pyfloat

record 'c geodataframe =
  features :: "feature list"
  dtype_T :: dtype
  dtype_M :: dtype
  dtype_F :: dtype
  dtype_EMP :: dtype
  h3_index :: "'c list option"

type_synonym ref = nat

type_synonym 'c store = "ref \<Rightarrow> 'c geodataframe"

datatype 'e pyerror = IndexerError 'e | KeyError string

text \<open>\<open>population_data.geometry.apply(lambda geom: h3.latlng_to_cell(geom.y, geom.x, resolution))\<close>\<close>

definition h3_column ::
  "(real \<Rightarrow> real \<Rightarrow> int \<Rightarrow> 'e + 'c) \<Rightarrow> 'c geodataframe \<Rightarrow> int \<Rightarrow> 'e + 'c list" where
  "h3_column idx gf resolution =
     collect (\<lambda>geom. idx (geom_y geom) (geom_x geom) resolution) (features gf)"

text \<open>
  \<open>assign_h3_to_population(population_data, resolution)\<close> stores the new column in the
  table its argument refers to and returns that argument.
\<close>

definition assign_h3_to_population ::
  "(real \<Rightarrow> real \<Rightarrow> int \<Rightarrow> 'e + 'c) \<Rightarrow> 'c store \<Rightarrow> ref \<Rightarrow> int \<Rightarrow> 'e + ('c store \<times> ref)" where
  "assign_h3_to_population idx s population_data resolution =
     (case h3_column idx (s population_data) resolution of
        Inl e \<Rightarrow> Inl e
      | Inr hs \<Rightarrow>
          Inr (s(population_data := (s population_data)\<lparr>h3_index := Some hs\<rparr>),
               population_data))"

text \<open>
  \<open>population_data[["h3_index", "T", "M", "F", "EMP"]]\<close>: a new table of the key and the
  four attributes, in this order.  A per-cell table is a list of rows, each a key and
  the list of its numeric columns.
\<close>

definition select_columns :: "'c geodataframe \<Rightarrow> 'e pyerror + ('c \<times> pyfloat list) list" where
  "select_columns gf =
     (case h3_index gf of
        None \<Rightarrow> Inl (KeyError ''h3_index'')
      | Some hs \<Rightarrow>
          Inr (zip hs (map (\<lambda>ft. [col_T ft, col_M ft, col_F ft, col_EMP ft]) (features gf))))"

definition selected_dtypes :: "'c geodataframe \<Rightarrow> dtype list" where
  "selected_dtypes gf = [dtype_T gf, dtype_M gf, dtype_F gf, dtype_EMP gf]"

text \<open>
  \<open>groupby("h3_index", as_index=False).sum()\<close>: every column summed within its group,
  in the arithmetic of its dtype \<open>dts ! i\<close>, and the dtypes of the columns of sums.
\<close>

definition ncols :: "('c \<times> pyfloat list) list \<Rightarrow> nat" where
  "ncols tbl = (case tbl of [] \<Rightarrow> 0 | p # _ \<Rightarrow> length (snd p))"

definition groupby_sum ::
  "dtype list \<Rightarrow> ('c::linorder \<times> pyfloat list) list \<Rightarrow> ('c \<times> pyfloat list) list" where
  "groupby_sum dts tbl =
     map (\<lambda>k. (k, map (\<lambda>i. sum_dtype (dts ! i) (map (\<lambda>vs. vs ! i) (group_of k tbl)))
                     [0..<ncols tbl]))
       (group_keys tbl)"

definition summed_dtypes :: "dtype list \<Rightarrow> ('c \<times> pyfloat list) list \<Rightarrow> dtype list" where
  "summed_dtypes dts totals =
     map (\<lambda>i. sum_result_dtype (dts ! i) (map (\<lambda>p. snd p ! i) totals)) [0..<length dts]"

text \<open>
  \<open>population_data["EMP_PERC"] = population_data["EMP"] * 100/population_data["T"]\<close>:
  a fifth column, from column 3 (\<open>EMP\<close>) and column 0 (\<open>T\<close>) of the same row.  The
  product is computed in the dtype of \<open>EMP\<close>, the quotient in float64.
\<close>

definition EMP_PERC :: "dtype list \<Rightarrow> pyfloat list \<Rightarrow> pyfloat" where
  "EMP_PERC dts vs =
     fdiv (to_float64 (dts ! 3) (mul100 (dts ! 3) (vs ! 3))) (to_float64 (dts ! 0) (vs ! 0))"

definition add_EMP_PERC ::
  "dtype list \<Rightarrow> ('c \<times> pyfloat list) list \<Rightarrow> ('c \<times> pyfloat list) list" where
  "add_EMP_PERC dts tbl = map (\<lambda>p. (fst p, snd p @ [EMP_PERC dts (snd p)])) tbl"

text \<open>The cell that builds \<open>population_data\<close>: assign, select, group and sum, derive.\<close>

definition population_summary ::
  "(real \<Rightarrow> real \<Rightarrow> int \<Rightarrow> 'e + 'c::linorder) \<Rightarrow> 'c store \<Rightarrow> ref \<Rightarrow> int
     \<Rightarrow> 'e pyerror + ('c \<times> pyfloat list) list" where
  "population_summary idx s population_data resolution =
     (case assign_h3_to_population idx s population_data resolution of
        Inl e \<Rightarrow> Inl (IndexerError e)
      | Inr (s', p) \<Rightarrow>
          (case select_columns (s' p) of
             Inl e \<Rightarrow> Inl e
           | Inr tbl \<Rightarrow>
               (let totals = groupby_sum (selected_dtypes (s' p)) tbl
                in Inr (add_EMP_PERC (summed_dtypes (selected_dtypes (s' p)) totals) totals))))"

text \<open>
  For stating what the summary holds: the sum, in the arithmetic of the dtype \<open>dt\<close>, of
  one attribute over the features that \<open>hs\<close> assigns to cell \<open>k\<close>.
\<close>

definition cell_total ::
  "dtype \<Rightarrow> (feature \<Rightarrow> pyfloat) \<Rightarrow> 'c \<Rightarrow> 'c list \<Rightarrow> feature list \<Rightarrow> pyfloat" where
  "cell_total dt col k hs fts =
     sum_dtype dt (map (\<lambda>q. col (snd q)) (filter (\<lambda>q. fst q = k) (zip hs fts)))"

text \<open>The dtype of the column of these sums, over all the cells of \<open>hs\<close>.\<close>

definition summed_dtype ::
  "dtype \<Rightarrow> (feature \<Rightarrow> pyfloat) \<Rightarrow> 'c::linorder list \<Rightarrow> feature list \<Rightarrow> dtype" where
  "summed_dtype dt col hs fts =
     sum_result_dtype dt (map (\<lambda>k. cell_total dt col k hs fts) (sort (remdups hs)))"

section \<open>Joining per-cell tables\<close>

text \<open>
  \<open>left.merge(right, on='h3_index', how='left')\<close> with a two-column right table, as
  \<open>aggregate\<close> returns: the rows of the left table in their order, each extended by the
  value of every right row with the same key, or by NaN when there is none.
  \<open>dropna()\<close> keeps the rows without a missing value.
\<close>

definition merge_left ::
  "('c \<times> pyfloat list) list \<Rightarrow> ('c \<times> pyfloat) list \<Rightarrow> ('c \<times> pyfloat list) list" where
  "merge_left left right =
     concat (map (\<lambda>p. case group_of (fst p) right of
                         [] \<Rightarrow> [(fst p, snd p @ [NaN])]
                       | ms \<Rightarrow> map (\<lambda>v. (fst p, snd p @ [v])) ms) left)"

definition dropna :: "('c \<times> pyfloat list) list \<Rightarrow> ('c \<times> pyfloat list) list" where
  "dropna tbl = filter (\<lambda>p. list_all notna (snd p)) tbl"

definition join ::
  "('c \<times> pyfloat list) list \<Rightarrow> ('c \<times> pyfloat) list \<Rightarrow> ('c \<times> pyfloat list) list" where
  "join left right = dropna (merge_left left right)"

text \<open>The cell that merges the three tables.\<close>

definition merge_all ::
  "('c \<times> pyfloat list) list \<Rightarrow> ('c \<times> pyfloat) list \<Rightarrow> ('c \<times> pyfloat) list
     \<Rightarrow> ('c \<times> pyfloat list) list" where
  "merge_all population_data ndvi_df bel_pop_density =
     join (join population_data ndvi_df) bel_pop_density"

section \<open>The grid indexer\<close>

text \<open>
  Modelled from the spec: the error taxonomy of the specification.  The notebook defines
  no exception of its own.
\<close>

datatype error =
  InvalidCoordinate | InvalidResolution | DegenerateRange | DivisionByZero
  | EmptyInput | JoinKeyMismatch

text \<open>
  Modelled from the spec: the preconditions of the GridIndexer's \<open>index\<close> operation,
  latitude within \<open>[-90, 90]\<close>, longitude within \<open>[-180, 180]\<close>, and a resolution within
  the supported range, 0 to 15.
\<close>

definition valid_coordinate :: "real \<Rightarrow> real \<Rightarrow> bool" where
  "valid_coordinate lat lon = (- 90 \<le> lat \<and> lat \<le> 90 \<and> - 180 \<le> lon \<and> lon \<le> 180)"

definition valid_resolution :: "int \<Rightarrow> bool" where
  "valid_resolution resolution = (0 \<le> resolution \<and> resolution \<le> 15)"

text \<open>
  Modelled from the spec: the GridIndexer's \<open>index\<close> operation.  The notebook calls
  \<open>h3.latlng_to_cell\<close>, whose code is not part of the repository.  The specification
  gives its contract: an \<open>InvalidCoordinate\<close> error for a coordinate out of range, an
  \<open>InvalidResolution\<close> error for an unsupported resolution, and otherwise a cell that is
  a function of the three inputs, here the parameter \<open>cell\<close>.  The specification does
  not order the two checks; the coordinate is checked first.
\<close>

definition index :: "(real \<Rightarrow> real \<Rightarrow> int \<Rightarrow> 'c) \<Rightarrow> real \<Rightarrow> real \<Rightarrow> int \<Rightarrow> error + 'c" where
  "index cell lat lon resolution =
     (if \<not> valid_coordinate lat lon then Inl InvalidCoordinate
      else if \<not> valid_resolution resolution then Inl InvalidResolution
      else Inr (cell lat lon resolution))"

section \<open>Example inputs\<close>

text \<open>
  Cell identifiers are the strings \<open>h3\<close> returns.  \<open>one_cell\<close> stands for the indexer on
  a region that lies within a single cell, \<open>two_cells\<close> for a region that a meridian
  splits between two cells.
\<close>

definition one_cell :: "real \<Rightarrow> real \<Rightarrow> int \<Rightarrow> unit + string" where
  "one_cell lat lon resolution = Inr ''8928308280fffff''"

definition two_cells :: "real \<Rightarrow> real \<Rightarrow> int \<Rightarrow> unit + string" where
  "two_cells lat lon resolution =
     Inr (if lon < 5 then ''871fa4b6bffffff'' else ''871fa4b6affffff'')"

definition north_up :: affine where
  "north_up = \<lparr>af_a = 1, af_b = 0, af_c = 4, af_d = 0, af_e = - 1, af_f = 51\<rparr>"

definition raster_sentinel :: raster where
  "raster_sentinel =
     \<lparr>array = [[Fin 5, Fin (- 9999), Fin (- 9999)]], transform = north_up,
      nodata = Some (Fin (- 9999))\<rparr>"

definition raster_2x2 :: raster where
  "raster_2x2 =
     \<lparr>array = [[Fin 1, Fin 2], [Fin 3, Fin 4]], transform = north_up, nodata = None\<rparr>"

text \<open>
  The float64 nearest to one tenth, and a raster of three pixels that hold it.
\<close>

definition tenth :: real where
  "tenth = 3602879701896397 / 36028797018963968"

definition raster_tenths :: raster where
  "raster_tenths =
     \<lparr>array = [[Fin tenth, Fin tenth, Fin tenth]], transform = north_up, nodata = None\<rparr>"

text \<open>
  \<open>by_resolution\<close> stands for the indexer on a region that lies within one cell at
  resolution 9 and within the parent of that cell at resolution 8.
\<close>

definition by_resolution :: "real \<Rightarrow> real \<Rightarrow> int \<Rightarrow> unit + string" where
  "by_resolution lat lon resolution =
     Inr (if resolution = 9 then ''8928308280fffff'' else ''8828308281fffff'')"

text \<open>A cell function for \<open>index\<close>.\<close>

definition some_cell :: "real \<Rightarrow> real \<Rightarrow> int \<Rightarrow> string" where
  "some_cell lat lon resolution = ''8928308280fffff''"

text \<open>A store in which every reference holds the table \<open>gf\<close>.\<close>

definition store_of :: "'c geodataframe \<Rightarrow> 'c store" where
  "store_of gf population_data = gf"

text \<open>
  Two census records, two records of areas without residents, and a record of an area
  without residents whose employed count times one hundred exceeds 32 bits; the
  attribute columns are 32-bit integer columns.
\<close>

definition census :: "string geodataframe" where
  "census =
     \<lparr>features =
        [\<lparr>geom_x = 4, geom_y = 51, col_T = Fin 10, col_M = Fin 4, col_F = Fin 6, col_EMP = Fin 3\<rparr>,
         \<lparr>geom_x = 4, geom_y = 51, col_T = Fin 20, col_M = Fin 11, col_F = Fin 9, col_EMP = Fin 7\<rparr>],
      dtype_T = Int32, dtype_M = Int32, dtype_F = Int32, dtype_EMP = Int32,
      h3_index = None\<rparr>"

definition census_empty_areas :: "string geodataframe" where
  "census_empty_areas =
     \<lparr>features =
        [\<lparr>geom_x = 4, geom_y = 51, col_T = Fin 0, col_M = Fin 0, col_F = Fin 0, col_EMP = Fin 0\<rparr>,
         \<lparr>geom_x = 6, geom_y = 51, col_T = Fin 0, col_M = Fin 0, col_F = Fin 0, col_EMP = Fin 5\<rparr>],
      dtype_T = Int32, dtype_M = Int32, dtype_F = Int32, dtype_EMP = Int32,
      h3_index = None\<rparr>"

definition census_wrap :: "string geodataframe" where
  "census_wrap =
     \<lparr>features =
        [\<lparr>geom_x = 4, geom_y = 51, col_T = Fin 0, col_M = Fin 0, col_F = Fin 0,
          col_EMP = Fin 21474837\<rparr>],
      dtype_T = Int32, dtype_M = Int32, dtype_F = Int32, dtype_EMP = Int32,
      h3_index = None\<rparr>"

section \<open>Rounding\<close>

lemma halvings_numeral:
  "halvings (numeral n) x = (if x < 2 then 0 else halvings (pred_numeral n) (x / 2) + 1)"
  by (simp add: numeral_eq_Suc)

lemma doublings_numeral:
  "doublings (numeral n) x = (if 1 \<le> x then 0 else doublings (pred_numeral n) (2 * x) - 1)"
  by (simp add: numeral_eq_Suc)

lemma doublings_zero: "doublings n 0 = - int n"
  by (induction n) simp_all

lemma round_half_even_of_int [simp]: "round_half_even (of_int m) = m"
  by (simp add: round_half_even_def)

lemma round_half_even_zero [simp]: "round_half_even 0 = 0"
  by (simp add: round_half_even_def)

lemma round64_zero [simp]: "round64 0 = Fin 0"
  by (simp add: round64_def expo_def doublings_zero Let_def)

lemma halvings_bounds:
  "1 \<le> x \<Longrightarrow>
   0 \<le> halvings n x \<and> 2 ^ nat (halvings n x) \<le> x \<and>
   (x < 2 ^ n \<longrightarrow> x < 2 * 2 ^ nat (halvings n x))"
proof (induction n arbitrary: x)
  case 0
  then show ?case by simp
next
  case (Suc n)
  show ?case
  proof (cases "x < 2")
    case True
    then show ?thesis using Suc.prems by simp
  next
    case False
    then have h: "1 \<le> x / 2" by simp
    from Suc.IH [OF h]
    have a: "0 \<le> halvings n (x / 2)"
      and b: "2 ^ nat (halvings n (x / 2)) \<le> x / 2"
      and c: "x / 2 < 2 ^ n \<longrightarrow> x / 2 < 2 * 2 ^ nat (halvings n (x / 2))"
      by simp_all
    have n: "nat (halvings n (x / 2) + 1) = Suc (nat (halvings n (x / 2)))"
      using a by simp
    show ?thesis
      using False a b c by (simp add: n)
  qed
qed

lemma expo_of_int:
  assumes "k \<noteq> 0" and "\<bar>k\<bar> \<le> 2 ^ 53"
  shows "0 \<le> expo (of_int k) \<and> expo (of_int k) \<le> 53 \<and>
         2 ^ nat (expo (of_int k)) \<le> \<bar>real_of_int k\<bar> \<and>
         \<bar>real_of_int k\<bar> < 2 * 2 ^ nat (expo (of_int k))"
proof -
  let ?a = "\<bar>real_of_int k\<bar>"
  have "1 \<le> \<bar>k\<bar>" using assms(1) by linarith
  then have "1 \<le> real_of_int \<bar>k\<bar>" by linarith
  then have one: "1 \<le> ?a" by simp
  have "real_of_int \<bar>k\<bar> \<le> real_of_int (2 ^ 53)"
    using assms(2) by (simp only: of_int_le_iff)
  then have up: "?a \<le> 2 ^ 53" by simp
  have e: "expo (of_int k) = halvings 1024 ?a"
    using one by (simp add: expo_def)
  from halvings_bounds [OF one, of 1024]
  have a: "0 \<le> halvings 1024 ?a" and b: "2 ^ nat (halvings 1024 ?a) \<le> ?a"
    and c: "?a < 2 ^ 1024 \<longrightarrow> ?a < 2 * 2 ^ nat (halvings 1024 ?a)"
    by simp_all
  have "(2::real) ^ 53 < 2 ^ 1024" by (rule power_strict_increasing) simp_all
  then have lt: "?a < 2 ^ 1024" using up by linarith
  have p: "(2::real) ^ nat (halvings 1024 ?a) \<le> 2 ^ 53" using b up by linarith
  have "nat (halvings 1024 ?a) \<le> 53"
  proof (rule power_le_imp_le_exp [of "2::real"])
    show "(1::real) < 2" by simp
    show "(2::real) ^ nat (halvings 1024 ?a) \<le> 2 ^ 53" by (rule p)
  qed
  then have d: "halvings 1024 ?a \<le> 53" using a by linarith
  show ?thesis unfolding e using a b c d lt by blast
qed

lemma round64_of_int:
  assumes "\<bar>k\<bar> \<le> 2 ^ 53"
  shows "round64 (of_int k) = Fin (of_int k)"
proof (cases "k = 0")
  case True
  then show ?thesis by simp
next
  case False
  let ?e = "expo (of_int k)"
  let ?a = "\<bar>real_of_int k\<bar>"
  from expo_of_int [OF False assms]
  have e0: "0 \<le> ?e" and e53: "?e \<le> 53" and lo: "2 ^ nat ?e \<le> ?a" and hi: "?a < 2 * 2 ^ nat ?e"
    by simp_all
  have "real_of_int \<bar>k\<bar> \<le> real_of_int (2 ^ 53)"
    using assms by (simp only: of_int_le_iff)
  then have up: "?a \<le> 2 ^ 53" by simp
  have "\<exists>m. real_of_int k / pow2 (?e - 52) = of_int m"
  proof (cases "?e \<le> 52")
    case True
    then have "pow2 (?e - 52) = 1 / 2 ^ nat (52 - ?e)"
      by (cases "?e = 52") (simp_all add: pow2_def)
    then have "real_of_int k / pow2 (?e - 52) = of_int (k * 2 ^ nat (52 - ?e))"
      by simp
    then show ?thesis by blast
  next
    case False
    then have e: "?e = 53" using e53 by linarith
    then have "?a = 2 ^ 53" using lo up by simp
    then have "real_of_int \<bar>k\<bar> = real_of_int (2 ^ 53)" by simp
    then have "\<bar>k\<bar> = 2 ^ 53" by (simp only: of_int_eq_iff)
    then have "k = 2 ^ 53 \<or> k = - (2 ^ 53)" by linarith
    then have "real_of_int k / pow2 (?e - 52) = of_int (k div 2)"
      by (auto simp: e pow2_def)
    then show ?thesis by blast
  qed
  then obtain m where m: "real_of_int k / pow2 (?e - 52) = of_int m" ..
  have pos: "pow2 (?e - 52) \<noteq> 0" by (simp add: pow2_def)
  have y: "of_int m * pow2 (?e - 52) = real_of_int k"
    using m pos by (simp add: field_simps)
  have "(2::real) ^ 53 < 2 ^ 1024" by (rule power_strict_increasing) simp_all
  then have "\<not> 2 ^ 1024 \<le> ?a" using up by linarith
  then show ?thesis
    by (simp add: round64_def Let_def m y)
qed

lemma round64_numeral [simp]:
  "numeral n \<le> (2::int) ^ 53 \<Longrightarrow> round64 (numeral n) = Fin (numeral n)"
  using round64_of_int [of "numeral n"] by simp

lemma round64_neg_numeral [simp]:
  "numeral n \<le> (2::int) ^ 53 \<Longrightarrow> round64 (- numeral n) = Fin (- numeral n)"
  using round64_of_int [of "- numeral n"] by simp

lemma round64_one [simp]: "round64 1 = Fin 1"
  using round64_of_int [of 1] by simp

lemma halvings_power: "m \<le> n \<Longrightarrow> halvings n (2 ^ m) = int m"
proof (induction n arbitrary: m)
  case 0
  then show ?case by simp
next
  case (Suc n)
  show ?case
  proof (cases m)
    case 0
    then show ?thesis by simp
  next
    case (Suc k)
    then have "k \<le> n" using Suc.prems by simp
    then have "halvings n (2 ^ k) = int k" by (rule Suc.IH)
    moreover have "(1::real) \<le> 2 ^ k" by (rule one_le_power) simp
    then have "\<not> (2::real) ^ Suc k < 2" by (simp add: not_less)
    ultimately show ?thesis using Suc by simp
  qed
qed

lemma round64_power:
  "m \<le> 1024 \<Longrightarrow> round64 (2 ^ m) = (if m = 1024 then PInf else Fin (2 ^ m))"
proof -
  assume m: "m \<le> 1024"
  have e: "expo (2 ^ m) = int m"
    using halvings_power [OF m] by (simp add: expo_def)
  have q: "(2::real) ^ m / pow2 (int m - 52) = of_int (2 ^ 52)"
  proof (cases "52 \<le> m")
    case True
    then have "pow2 (int m - 52) = 2 ^ (m - 52)"
      by (simp add: pow2_def nat_diff_distrib')
    moreover have "(2::real) ^ m = 2 ^ (m - 52) * 2 ^ 52"
      using True by (metis le_add_diff_inverse2 power_add)
    ultimately show ?thesis by simp
  next
    case False
    then have "pow2 (int m - 52) = 1 / 2 ^ (52 - m)"
      by (simp add: pow2_def nat_diff_distrib')
    moreover have "(2::real) ^ m * 2 ^ (52 - m) = 2 ^ 52"
      using False by (metis le_add_diff_inverse nat_le_linear power_add)
    ultimately show ?thesis by simp
  qed
  have y: "of_int (2 ^ 52) * pow2 (int m - 52) = (2::real) ^ m"
  proof -
    have "pow2 (int m - 52) \<noteq> 0" by (simp add: pow2_def)
    then show ?thesis using q by (simp add: field_simps)
  qed
  have r: "round_half_even (2 ^ m / pow2 (int m - 52)) = 2 ^ 52"
    by (simp only: q round_half_even_of_int)
  have "((2::real) ^ 1024 \<le> 2 ^ m) = (1024 \<le> m)"
    by (rule power_increasing_iff) simp
  then have c: "(2::real) ^ 1024 \<le> 2 ^ m \<longleftrightarrow> m = 1024"
    using m by auto
  have ab: "\<bar>(2::real) ^ m\<bar> = 2 ^ m" by simp
  show ?thesis
    unfolding round64_def Let_def e r y by (simp only: ab c) simp
qed

lemmas round64_eval =
  round64_def expo_def pow2_def round_half_even_def Let_def halvings_numeral doublings_numeral

section \<open>Compensated sums\<close>

lemma abs_le_2_53:
  "\<bar>a\<bar> + b \<le> (2::int) ^ 53 \<Longrightarrow> 0 \<le> b \<Longrightarrow> \<bar>a\<bar> \<le> 2 ^ 53"
  by linarith

lemma fadd_of_int:
  "\<bar>a + b\<bar> \<le> 2 ^ 53 \<Longrightarrow>
   fadd (Fin (of_int a)) (Fin (of_int b)) = Fin (of_int (a + b))"
  using round64_of_int [of "a + b"] by simp

lemma fsub_of_int:
  "\<bar>a - b\<bar> \<le> 2 ^ 53 \<Longrightarrow>
   fsub (Fin (of_int a)) (Fin (of_int b)) = Fin (of_int (a - b))"
  using round64_of_int [of "a - b"] by (simp add: fsub_def)

lemma kahan_step_of_int:
  assumes "\<bar>a\<bar> + \<bar>k\<bar> \<le> 2 ^ 53"
  shows "kahan_step (Fin (of_int a), Fin 0) (Fin (of_int k)) = (Fin (of_int (a + k)), Fin 0)"
proof -
  have k: "\<bar>k\<bar> \<le> 2 ^ 53" and ak: "\<bar>a + k\<bar> \<le> 2 ^ 53" and a: "\<bar>a\<bar> \<le> 2 ^ 53"
    using assms by linarith+
  have y: "fsub (Fin (of_int k)) (Fin 0) = Fin (of_int k)"
    using fsub_of_int [of k 0] k by simp
  have t: "fadd (Fin (of_int a)) (Fin (of_int k)) = Fin (of_int (a + k))"
    using ak by (rule fadd_of_int)
  have d: "fsub (Fin (of_int (a + k))) (Fin (of_int a)) = Fin (of_int k)"
    using fsub_of_int [of "a + k" a] k by simp
  have c: "fsub (Fin (of_int k)) (Fin (of_int k)) = Fin 0"
    using fsub_of_int [of k k] by simp
  show ?thesis
    by (simp only: kahan_step_def Let_def fst_conv snd_conv y t d c) simp
qed

lemma foldl_kahan_of_int:
  assumes "\<bar>a\<bar> + (\<Sum>k\<leftarrow>ks. \<bar>k\<bar>) \<le> 2 ^ 53"
  shows "foldl kahan_step (Fin (of_int a), Fin 0) (map (\<lambda>k. Fin (of_int k)) ks) =
         (Fin (of_int (a + sum_list ks)), Fin 0)"
  using assms
proof (induction ks arbitrary: a)
  case Nil
  then show ?case by simp
next
  case (Cons k ks)
  have nn: "0 \<le> (\<Sum>k\<leftarrow>ks. \<bar>k\<bar>)"
    by (rule sum_list_nonneg) auto
  have s: "\<bar>a\<bar> + \<bar>k\<bar> \<le> 2 ^ 53"
    using Cons.prems nn by simp
  have r: "\<bar>a + k\<bar> + (\<Sum>k\<leftarrow>ks. \<bar>k\<bar>) \<le> 2 ^ 53"
    using Cons.prems by simp
  show ?case
    using Cons.IH [OF r] by (simp add: kahan_step_of_int [OF s] add.assoc)
qed

lemma kahan_sum_of_int:
  assumes "(\<Sum>k\<leftarrow>ks. \<bar>k\<bar>) \<le> 2 ^ 53"
  shows "kahan_sum (map (\<lambda>k. Fin (of_int k)) ks) = Fin (of_int (sum_list ks))"
  using foldl_kahan_of_int [of 0 ks] assms by (simp add: kahan_sum_def)

lemma filter_notna_of_int:
  "filter notna (map (\<lambda>k. Fin (of_int k)) ks) = map (\<lambda>k. Fin (of_int k)) ks"
  by (induction ks) (simp_all add: notna_def)

lemma mean_skipna_of_int:
  assumes "(\<Sum>k\<leftarrow>ks. \<bar>k\<bar>) \<le> 2 ^ 53"
  shows "mean_skipna (map (\<lambda>k. Fin (of_int k)) ks) =
         fdiv (Fin (of_int (sum_list ks))) (Fin (real (length ks)))"
  by (simp add: mean_skipna_def filter_notna_of_int kahan_sum_of_int [OF assms])


lemma mean_skipna_replicate_of_int:
  assumes "int (Suc n) * \<bar>v\<bar> \<le> 2 ^ 53"
  shows "mean_skipna (replicate (Suc n) (Fin (of_int v))) = Fin (of_int v)"
proof -
  have r: "replicate (Suc n) (Fin (real_of_int v)) = map (\<lambda>k. Fin (of_int k)) (replicate (Suc n) v)"
    by simp
  have "(\<Sum>k\<leftarrow>replicate (Suc n) v. \<bar>k\<bar>) = int (Suc n) * \<bar>v\<bar>"
    by (simp add: sum_list_replicate map_replicate_const del: replicate.simps)
  then have b: "(\<Sum>k\<leftarrow>replicate (Suc n) v. \<bar>k\<bar>) \<le> 2 ^ 53"
    using assms by simp
  have v: "\<bar>v\<bar> \<le> 2 ^ 53"
  proof -
    have "\<bar>v\<bar> \<le> int (Suc n) * \<bar>v\<bar>"
      by (simp add: mult_le_cancel_right1)
    then show ?thesis using assms by linarith
  qed
  have "mean_skipna (replicate (Suc n) (Fin (of_int v))) =
        fdiv (Fin (of_int (sum_list (replicate (Suc n) v)))) (Fin (real (length (replicate (Suc n) v))))"
    unfolding r using b by (rule mean_skipna_of_int)
  also have "\<dots> = round64 (of_int (int (Suc n) * v) / real (Suc n))"
    by (simp add: sum_list_replicate del: replicate.simps)
  also have "of_int (int (Suc n) * v) / real (Suc n) = real_of_int v"
    by simp
  finally show ?thesis
    using round64_of_int [OF v] by simp
qed

lemma mean_skipna_replicate_NaN: "mean_skipna (replicate n NaN) = NaN"
  by (simp add: mean_skipna_def notna_def kahan_sum_def)

lemma kahan_sum_pair:
  assumes "round64 a = Fin a" and "round64 b = Fin b"
  shows "kahan_sum [Fin a, Fin b] = fadd (Fin a) (Fin b)"
  using assms by (simp add: kahan_sum_def kahan_step_def Let_def fsub_def)

lemma mean_skipna_pair:
  assumes "round64 a = Fin a" and "round64 b = Fin b"
  shows "mean_skipna [Fin a, Fin b] = fdiv (fadd (Fin a) (Fin b)) (Fin 2)"
  using kahan_sum_pair [OF assms] by (simp add: mean_skipna_def notna_def)

section \<open>Properties of the loops and of grouping\<close>

lemma collect_Inr_D:
  "collect g xs = Inr ys \<Longrightarrow> list_all2 (\<lambda>x y. g x = Inr y) xs ys"
proof (induction xs arbitrary: ys)
  case Nil
  then show ?case by simp
next
  case (Cons x xs)
  from Cons.prems obtain y ys' where "g x = Inr y" "collect g xs = Inr ys'" "ys = y # ys'"
    by (auto split: sum.splits)
  then show ?case using Cons.IH by simp
qed

lemma collect_Inr_I:
  "list_all2 (\<lambda>x y. g x = Inr y) xs ys \<Longrightarrow> collect g xs = Inr ys"
  by (induction rule: list_all2_induct) simp_all

lemma collect_Inr_iff:
  "collect g xs = Inr ys \<longleftrightarrow> list_all2 (\<lambda>x y. g x = Inr y) xs ys"
  using collect_Inr_D collect_Inr_I by blast

lemma collect_total:
  "(\<And>x. x \<in> set xs \<Longrightarrow> g x = Inr (h x)) \<Longrightarrow> collect g xs = Inr (map h xs)"
  by (induction xs) simp_all

lemma collect_length: "collect g xs = Inr ys \<Longrightarrow> length ys = length xs"
  by (simp add: collect_Inr_iff list_all2_lengthD)

lemma length_pixel_indices: "length (pixel_indices arr) = shape0 arr * shape1 arr"
  by (simp add: pixel_indices_def length_concat comp_def sum_list_triv)

lemma pixel_values_snd:
  assumes "pixel_values idx r resolution = Inr values"
  shows "map snd values = map (\<lambda>p. array r ! fst p ! snd p) (pixel_indices (array r))"
proof -
  have "list_all2 (\<lambda>p y. pixel_tuple idx r resolution p = Inr y) (pixel_indices (array r)) values"
    using assms by (simp add: pixel_values_def collect_Inr_iff)
  then have "list_all2 (\<lambda>p y. snd y = array r ! fst p ! snd p) (pixel_indices (array r)) values"
    by (rule list_all2_mono) (auto simp: pixel_tuple_def split: prod.splits sum.splits)
  then show ?thesis
    by (induction rule: list_all2_induct) simp_all
qed

lemma set_group_keys: "set (group_keys tbl) = fst ` set tbl"
  by (simp add: group_keys_def)

lemma distinct_group_keys: "distinct (group_keys tbl)"
  by (simp add: group_keys_def)

lemma group_of_nonempty: "k \<in> fst ` set tbl \<Longrightarrow> group_of k tbl \<noteq> []"
  by (auto simp: group_of_def filter_empty_conv)

lemma set_group_of: "set (group_of k tbl) = {v. (k, v) \<in> set tbl}"
  by (auto simp: group_of_def image_iff)

lemma groupby_mean_keys: "map fst (groupby_mean tbl) = group_keys tbl"
  by (simp add: groupby_mean_def comp_def)

lemma groupby_mean_rows:
  "(k, m) \<in> set (groupby_mean tbl) \<longleftrightarrow> k \<in> fst ` set tbl \<and> m = mean_skipna (group_of k tbl)"
  by (auto simp: groupby_mean_def set_group_keys)

lemma group_of_uniform:
  assumes "\<forall>p\<in>set tbl. snd p = v" and "k \<in> fst ` set tbl"
  shows "\<exists>n. group_of k tbl = replicate (Suc n) v"
proof -
  have "\<forall>x\<in>set (group_of k tbl). x = v"
    using assms(1) by (auto simp: set_group_of)
  then have "group_of k tbl = replicate (length (group_of k tbl)) v"
    by (simp add: replicate_length_same)
  moreover have "length (group_of k tbl) \<noteq> 0"
    using group_of_nonempty [OF assms(2)] by simp
  ultimately show ?thesis
    by (metis not0_implies_Suc)
qed

lemma pixel_indices_bounds:
  "p \<in> set (pixel_indices arr) \<Longrightarrow> fst p < shape0 arr \<and> snd p < shape1 arr"
  by (auto simp: pixel_indices_def)

lemma pixel_values_uniform:
  assumes "pixel_values idx r resolution = Inr values"
    and "\<forall>row<shape0 (array r). \<forall>col<shape1 (array r). array r ! row ! col = v"
  shows "\<forall>p\<in>set values. snd p = v"
proof -
  have "set (map snd values) = (\<lambda>p. array r ! fst p ! snd p) ` set (pixel_indices (array r))"
    using pixel_values_snd [OF assms(1)] by (metis set_map)
  then have "\<forall>x\<in>set (map snd values). x = v"
    using assms(2) pixel_indices_bounds by auto
  then show ?thesis by simp
qed

lemma aggregate_Inr:
  "pixel_values idx r resolution = Inr values \<Longrightarrow>
   aggregate idx r resolution = Inr (groupby_mean values)"
  by (simp add: aggregate_def)

lemma aggregate_Inr_D:
  "aggregate idx r resolution = Inr tbl \<Longrightarrow>
   \<exists>values. pixel_values idx r resolution = Inr values \<and> tbl = groupby_mean values"
  by (auto simp: aggregate_def split: sum.splits)

lemma pixel_values_one_cell:
  assumes "\<forall>lat lon. idx lat lon resolution = Inr c"
  shows "pixel_values idx r resolution =
     Inr (map (\<lambda>p. (c, array r ! fst p ! snd p)) (pixel_indices (array r)))"
  unfolding pixel_values_def
  by (rule collect_total) (simp add: pixel_tuple_def assms split: prod.splits)

lemma pixel_indices_single_row: "pixel_indices [row] = map (Pair 0) [0..<length row]"
  by (simp add: pixel_indices_def shape0_def shape1_def)

lemma pixel_values_single_row:
  assumes "\<forall>lat lon. idx lat lon resolution = Inr c" and "array r = [row]"
  shows "pixel_values idx r resolution = Inr (map (Pair c) row)"
proof -
  have "map (\<lambda>p. (c, array r ! fst p ! snd p)) (pixel_indices (array r)) =
        map (Pair c) (map (\<lambda>i. row ! i) [0..<length row])"
    by (simp add: assms(2) pixel_indices_single_row comp_def)
  also have "\<dots> = map (Pair c) row"
    by (simp only: map_nth)
  finally show ?thesis
    using pixel_values_one_cell [of idx resolution c r] assms(1) by simp
qed

lemma remdups_replicate_Suc: "remdups (replicate (Suc n) c) = [c]"
  by (induction n) simp_all

lemma groupby_mean_one_cell:
  assumes "vs \<noteq> []"
  shows "groupby_mean (map (Pair c) vs) = [(c, mean_skipna vs)]"
proof -
  have "map fst (map (Pair c) vs) = replicate (length vs) c"
    by (simp add: comp_def map_replicate_const)
  moreover obtain n where "length vs = Suc n"
    using assms by (cases vs) simp_all
  ultimately have "group_keys (map (Pair c) vs) = [c]"
    by (simp only: group_keys_def remdups_replicate_Suc) simp
  moreover have "group_of c (map (Pair c) vs) = vs"
    by (simp add: group_of_def comp_def filter_map)
  ultimately show ?thesis
    by (simp add: groupby_mean_def)
qed

lemma pixel_tuple_nodata:
  "pixel_tuple idx (r\<lparr>nodata := s\<rparr>) resolution = pixel_tuple idx r resolution"
  by (rule ext) (simp add: pixel_tuple_def split: prod.splits sum.splits)

lemma collect_raises:
  "x \<in> set xs \<Longrightarrow> g x = Inl e \<Longrightarrow> \<exists>e'. collect g xs = Inl e'"
  by (induction xs) (auto split: sum.splits)

section \<open>Claims about the raster aggregator\<close>

lemma length_group_of: "length (group_of k tbl) \<le> length tbl"
  by (simp add: group_of_def)

lemma pixel_values_length:
  "pixel_values idx r resolution = Inr values \<Longrightarrow>
   length values = shape0 (array r) * shape1 (array r)"
  by (simp add: pixel_values_def collect_length length_pixel_indices)

text \<open>
  C2 (as amended).  When the loops of \<open>aggregate\<close> complete with the list \<open>values\<close> (one
  tuple per pixel), \<open>aggregate\<close> returns a table with exactly one row for every distinct
  cell that occurs in \<open>values\<close>.  The value of the row of cell \<open>k\<close> is the float64
  quotient of the compensated float64 sum of the pixel values of \<open>k\<close> by their number,
  where the pixels that count are those whose value is not NaN: their arithmetic mean up
  to rounding and overflow.  Two pixels in one cell that hold the float64 values \<open>a\<close>
  and \<open>b\<close> give the rounded sum of \<open>a\<close> and \<open>b\<close>, divided by two and rounded.  A raster
  whose pixels all hold the integer \<open>v\<close> gives \<open>v\<close> in every row, provided the number of
  pixels times \<open>\<bar>v\<bar>\<close> does not exceed \<open>2 ^ 53\<close>, so that every partial sum is exact.
\<close>

theorem aggregate_mean_per_cell:
  assumes "pixel_values idx r resolution = Inr values"
  shows "\<exists>tbl. aggregate idx r resolution = Inr tbl \<and>
      distinct (map fst tbl) \<and>
      (\<forall>k m. (k, m) \<in> set tbl \<longleftrightarrow>
         k \<in> fst ` set values \<and>
         m = fdiv (kahan_sum (filter notna (group_of k values)))
                  (Fin (real (length (filter notna (group_of k values)))))) \<and>
      (\<forall>k a b. group_of k values = [Fin a, Fin b] \<and> round64 a = Fin a \<and> round64 b = Fin b \<longrightarrow>
         (k, fdiv (fadd (Fin a) (Fin b)) (Fin 2)) \<in> set tbl) \<and>
      (\<forall>v. (\<forall>row<shape0 (array r). \<forall>col<shape1 (array r).
               array r ! row ! col = Fin (of_int v)) \<and>
           int (shape0 (array r) * shape1 (array r)) * \<bar>v\<bar> \<le> 2 ^ 53 \<longrightarrow>
         (\<forall>p\<in>set tbl. snd p = Fin (of_int v)))"
proof -
  let ?tbl = "groupby_mean values"
  have ret: "aggregate idx r resolution = Inr ?tbl"
    using assms by (rule aggregate_Inr)
  have dist: "distinct (map fst ?tbl)"
    by (simp add: groupby_mean_keys distinct_group_keys)
  have rows: "\<forall>k m. (k, m) \<in> set ?tbl \<longleftrightarrow>
         k \<in> fst ` set values \<and>
         m = fdiv (kahan_sum (filter notna (group_of k values)))
                  (Fin (real (length (filter notna (group_of k values)))))"
    by (simp add: groupby_mean_rows mean_skipna_def Let_def)
  have two: "\<forall>k a b. group_of k values = [Fin a, Fin b] \<and> round64 a = Fin a \<and> round64 b = Fin b \<longrightarrow>
         (k, fdiv (fadd (Fin a) (Fin b)) (Fin 2)) \<in> set ?tbl"
  proof (intro allI impI, elim conjE)
    fix k a b
    assume g: "group_of k values = [Fin a, Fin b]"
      and a: "round64 a = Fin a" and b: "round64 b = Fin b"
    from g have "Fin a \<in> set (group_of k values)" by simp
    then have "k \<in> fst ` set values"
      by (force simp: set_group_of)
    moreover have "mean_skipna (group_of k values) = fdiv (fadd (Fin a) (Fin b)) (Fin 2)"
      unfolding g using a b by (rule mean_skipna_pair)
    ultimately show "(k, fdiv (fadd (Fin a) (Fin b)) (Fin 2)) \<in> set ?tbl"
      by (simp add: groupby_mean_rows)
  qed
  have uni: "\<forall>v. (\<forall>row<shape0 (array r). \<forall>col<shape1 (array r).
               array r ! row ! col = Fin (of_int v)) \<and>
           int (shape0 (array r) * shape1 (array r)) * \<bar>v\<bar> \<le> 2 ^ 53 \<longrightarrow>
         (\<forall>p\<in>set ?tbl. snd p = Fin (of_int v))"
  proof (intro allI impI ballI, elim conjE)
    fix v :: int and p
    assume u: "\<forall>row<shape0 (array r). \<forall>col<shape1 (array r). array r ! row ! col = Fin (of_int v)"
      and bound: "int (shape0 (array r) * shape1 (array r)) * \<bar>v\<bar> \<le> 2 ^ 53"
      and p: "p \<in> set ?tbl"
    have unif: "\<forall>q\<in>set values. snd q = Fin (of_int v)"
      using pixel_values_uniform [OF assms u] .
    from p have k: "fst p \<in> fst ` set values"
      and m: "snd p = mean_skipna (group_of (fst p) values)"
      using groupby_mean_rows [of "fst p" "snd p" "values"] by simp_all
    from group_of_uniform [OF unif k] obtain n where
      g: "group_of (fst p) values = replicate (Suc n) (Fin (of_int v))" ..
    have "Suc n = length (group_of (fst p) values)" by (simp add: g)
    also have "\<dots> \<le> length values" by (rule length_group_of)
    also have "\<dots> = shape0 (array r) * shape1 (array r)"
      using assms by (rule pixel_values_length)
    finally have "int (Suc n) \<le> int (shape0 (array r) * shape1 (array r))"
      by (simp only: of_nat_le_iff)
    then have "int (Suc n) * \<bar>v\<bar> \<le> int (shape0 (array r) * shape1 (array r)) * \<bar>v\<bar>"
      by (rule mult_right_mono) simp
    then have "int (Suc n) * \<bar>v\<bar> \<le> 2 ^ 53" using bound by linarith
    then show "snd p = Fin (of_int v)"
      unfolding m g by (rule mean_skipna_replicate_of_int)
  qed
  from ret dist rows two uni show ?thesis by blast
qed

theorem aggregate_mean_per_cell_witness:
  "pixel_values two_cells raster_2x2 7 =
     Inr [(''871fa4b6bffffff'', Fin 1), (''871fa4b6affffff'', Fin 2),
          (''871fa4b6bffffff'', Fin 3), (''871fa4b6affffff'', Fin 4)] \<and>
   aggregate two_cells raster_2x2 7 =
     Inr [(''871fa4b6affffff'', Fin 3), (''871fa4b6bffffff'', Fin 2)]"
proof -
  have h: "pixel_values two_cells raster_2x2 7 =
     Inr [(''871fa4b6bffffff'', Fin 1), (''871fa4b6affffff'', Fin 2),
          (''871fa4b6bffffff'', Fin 3), (''871fa4b6affffff'', Fin 4)]"
    by (simp add: pixel_values_def pixel_indices_def shape0_def shape1_def pixel_tuple_def
        affine_mul_def two_cells_def raster_2x2_def north_up_def upt_rec)
  from aggregate_mean_per_cell [OF h] obtain tbl where
    t: "aggregate two_cells raster_2x2 7 = Inr tbl"
    by blast
  have "aggregate two_cells raster_2x2 7 =
     Inr [(''871fa4b6affffff'', Fin 3), (''871fa4b6bffffff'', Fin 2)]"
    using t
    by (simp add: aggregate_def h groupby_mean_def group_keys_def group_of_def mean_skipna_def
        kahan_sum_def kahan_step_def fsub_def notna_def Let_def)
  with h show ?thesis by simp
qed

lemma tenth_is_float64: "round64 (1 / 10) = Fin tenth"
  by (simp add: tenth_def round64_eval)

lemma kahan_tenth_1: "kahan_step (Fin 0, Fin 0) (Fin tenth) = (Fin tenth, Fin 0)"
  by (simp add: kahan_step_def fsub_def tenth_def round64_eval)

lemma kahan_tenth_2:
  "kahan_step (Fin tenth, Fin 0) (Fin tenth) = (Fin (2 * tenth), Fin 0)"
  by (simp add: kahan_step_def fsub_def tenth_def round64_eval)

lemma kahan_tenth_3:
  "kahan_step (Fin (2 * tenth), Fin 0) (Fin tenth) =
     (Fin (5404319552844596 / 18014398509481984), Fin (1 / 36028797018963968))"
  by (simp add: kahan_step_def fsub_def tenth_def round64_eval)

lemma kahan_sum_tenths:
  "kahan_sum [Fin tenth, Fin tenth, Fin tenth] = Fin (5404319552844596 / 18014398509481984)"
  by (simp add: kahan_sum_def kahan_tenth_1 kahan_tenth_2 kahan_tenth_3)

lemma mean_tenths:
  "mean_skipna [Fin tenth, Fin tenth, Fin tenth] =
     Fin (7205759403792795 / 72057594037927936)"
proof -
  have "fdiv (Fin (5404319552844596 / 18014398509481984)) (Fin 3) =
        Fin (7205759403792795 / 72057594037927936)"
    by (simp add: round64_eval)
  then show ?thesis
    by (simp add: mean_skipna_def notna_def kahan_sum_tenths)
qed

text \<open>
  C2 as stated fails: a raster of three pixels that all hold the float64 nearest to one
  tenth, in one cell, is emitted with the next float64 above it (0.10000000000000002),
  not with the value of the pixels.
\<close>

theorem aggregate_uniform_counterexample:
  "array raster_tenths = [[Fin tenth, Fin tenth, Fin tenth]] \<and>
   round64 (1 / 10) = Fin tenth \<and>
   aggregate one_cell raster_tenths 9 =
     Inr [(''8928308280fffff'', Fin (7205759403792795 / 72057594037927936))] \<and>
   aggregate one_cell raster_tenths 9 \<noteq> Inr [(''8928308280fffff'', Fin tenth)]"
proof -
  have pv: "pixel_values one_cell raster_tenths 9 =
      Inr (map (Pair ''8928308280fffff'') [Fin tenth, Fin tenth, Fin tenth])"
    by (rule pixel_values_single_row) (simp_all add: one_cell_def raster_tenths_def)
  have a: "aggregate one_cell raster_tenths 9 =
     Inr [(''8928308280fffff'', Fin (7205759403792795 / 72057594037927936))]"
    using groupby_mean_one_cell [of "[Fin tenth, Fin tenth, Fin tenth]" "''8928308280fffff''"]
    by (simp add: aggregate_def pv mean_tenths)
  have n: "Fin (7205759403792795 / 72057594037927936) \<noteq> Fin tenth"
    by (simp add: tenth_def)
  show ?thesis
    using a n by (simp add: raster_tenths_def tenth_is_float64)
qed

text \<open>
  Overflow is a second way for the mean of a uniform raster to differ from the value of
  its pixels: the sum of two pixels that hold \<open>2 ^ 1023\<close> is infinite, and so is the mean.
\<close>

lemma aggregate_overflow:
  "aggregate one_cell
     \<lparr>array = [[Fin (2 ^ 1023), Fin (2 ^ 1023)]], transform = north_up, nodata = None\<rparr> 9 =
   Inr [(''8928308280fffff'', PInf)]"
proof -
  have a: "round64 (2 ^ 1023) = Fin (2 ^ 1023)"
    using round64_power [of 1023] by simp
  have b: "round64 (2 * 2 ^ 1023) = PInf"
    using round64_power [of 1024] by simp
  have s1: "kahan_step (Fin 0, Fin 0) (Fin (2 ^ 1023)) = (Fin (2 ^ 1023), Fin 0)"
    by (simp add: kahan_step_def fsub_def a del: power_numeral)
  have s2: "kahan_step (Fin (2 ^ 1023), Fin 0) (Fin (2 ^ 1023)) = (PInf, PInf)"
    by (simp add: kahan_step_def fsub_def a b del: power_numeral)
  have m: "mean_skipna [Fin (2 ^ 1023), Fin (2 ^ 1023)] = PInf"
    by (simp add: mean_skipna_def notna_def kahan_sum_def s1 s2 del: power_numeral)
  have pv: "pixel_values one_cell
     \<lparr>array = [[Fin (2 ^ 1023), Fin (2 ^ 1023)]], transform = north_up, nodata = None\<rparr> 9 =
      Inr (map (Pair ''8928308280fffff'') [Fin (2 ^ 1023), Fin (2 ^ 1023)])"
    by (rule pixel_values_single_row) (simp_all add: one_cell_def)
  show ?thesis
    using groupby_mean_one_cell [of "[Fin (2 ^ 1023), Fin (2 ^ 1023)]" "''8928308280fffff''"]
    by (simp add: aggregate_def pv m del: power_numeral)
qed

lemma filter_notna_Fin: "filter notna (map Fin xs) = map Fin xs"
  by (induction xs) (simp_all add: notna_def)

lemma mean_skipna_Fin:
  "mean_skipna (map Fin xs) = fdiv (kahan_sum (map Fin xs)) (Fin (real (length xs)))"
  by (simp add: mean_skipna_def filter_notna_Fin)

text \<open>
  C1 (as amended).  \<open>aggregate\<close> never reads the no-data value the raster declares: its
  result is the same whatever value is declared, and a pixel that holds the sentinel is
  accumulated like any other.  A cell that receives one pixel of value \<open>v\<close> and \<open>n\<close>
  pixels holding the finite sentinel \<open>x\<close> is emitted with the float64 quotient of the
  compensated sum of all \<open>n + 1\<close> values by the count \<open>n + 1\<close>; for integer values \<open>i\<close>
  and \<open>j\<close> with \<open>\<bar>i\<bar> + n * \<bar>j\<bar>\<close> at most \<open>2 ^ 53\<close> the sum is exact and the mean is the
  float64 nearest to \<open>(i + n * j) / (n + 1)\<close>.
\<close>

theorem aggregate_ignores_nodata:
  "aggregate idx (r\<lparr>nodata := s\<rparr>) resolution = aggregate idx r resolution \<and>
   ((\<forall>lat lon. idx lat lon resolution = Inr c) \<and> nodata r = Some (Fin x) \<and>
    array r = [Fin v # replicate n (Fin x)] \<longrightarrow>
    aggregate idx r resolution =
      Inr [(c, fdiv (kahan_sum (Fin v # replicate n (Fin x))) (Fin (real n + 1)))]) \<and>
   ((\<forall>lat lon. idx lat lon resolution = Inr c) \<and> nodata r = Some (Fin (of_int j)) \<and>
    array r = [Fin (of_int i) # replicate n (Fin (of_int j))] \<and>
    \<bar>i\<bar> + int n * \<bar>j\<bar> \<le> 2 ^ 53 \<longrightarrow>
    aggregate idx r resolution =
      Inr [(c, round64 ((of_int i + real n * of_int j) / (real n + 1)))])"
proof (intro conjI impI)
  show "aggregate idx (r\<lparr>nodata := s\<rparr>) resolution = aggregate idx r resolution"
    by (simp add: aggregate_def pixel_values_def pixel_tuple_nodata)
next
  assume h: "(\<forall>lat lon. idx lat lon resolution = Inr c) \<and> nodata r = Some (Fin x) \<and>
    array r = [Fin v # replicate n (Fin x)]"
  then have pv: "pixel_values idx r resolution = Inr (map (Pair c) (map Fin (v # replicate n x)))"
    using pixel_values_single_row [of idx resolution c r "Fin v # replicate n (Fin x)"] by simp
  have "mean_skipna (map Fin (v # replicate n x)) =
        fdiv (kahan_sum (Fin v # replicate n (Fin x))) (Fin (real n + 1))"
    using mean_skipna_Fin [of "v # replicate n x"] by (simp add: add.commute)
  then have "groupby_mean (map (Pair c) (map Fin (v # replicate n x))) =
        [(c, fdiv (kahan_sum (Fin v # replicate n (Fin x))) (Fin (real n + 1)))]"
    using groupby_mean_one_cell [of "map Fin (v # replicate n x)" c] by simp
  then show "aggregate idx r resolution =
      Inr [(c, fdiv (kahan_sum (Fin v # replicate n (Fin x))) (Fin (real n + 1)))]"
    by (simp add: aggregate_def pv)
next
  assume h: "(\<forall>lat lon. idx lat lon resolution = Inr c) \<and> nodata r = Some (Fin (of_int j)) \<and>
    array r = [Fin (of_int i) # replicate n (Fin (of_int j))] \<and> \<bar>i\<bar> + int n * \<bar>j\<bar> \<le> 2 ^ 53"
  let ?ks = "i # replicate n j"
  have vs: "Fin (real_of_int i) # replicate n (Fin (real_of_int j)) = map (\<lambda>k. Fin (of_int k)) ?ks"
    by simp
  have pv: "pixel_values idx r resolution = Inr (map (Pair c) (map (\<lambda>k. Fin (of_int k)) ?ks))"
    using h pixel_values_single_row [of idx resolution c r "Fin (of_int i) # replicate n (Fin (of_int j))"]
    by (simp only: vs) simp
  have b: "(\<Sum>k\<leftarrow>?ks. \<bar>k\<bar>) \<le> 2 ^ 53"
    using h by (simp add: sum_list_replicate)
  have "mean_skipna (map (\<lambda>k. Fin (of_int k)) ?ks) =
        fdiv (Fin (of_int (sum_list ?ks))) (Fin (real (length ?ks)))"
    using b by (rule mean_skipna_of_int)
  also have "\<dots> = round64 ((of_int i + real n * of_int j) / (real n + 1))"
    by (simp add: sum_list_replicate add.commute)
  finally have "groupby_mean (map (Pair c) (map (\<lambda>k. Fin (of_int k)) ?ks)) =
        [(c, round64 ((of_int i + real n * of_int j) / (real n + 1)))]"
    using groupby_mean_one_cell [of "map (\<lambda>k. Fin (of_int k)) ?ks" c] by simp
  then show "aggregate idx r resolution =
      Inr [(c, round64 ((of_int i + real n * of_int j) / (real n + 1)))]"
    by (simp add: aggregate_def pv)
qed

theorem aggregate_ignores_nodata_witness:
  "aggregate one_cell
     \<lparr>array = [[Fin 7, Fin 255]], transform = north_up, nodata = Some (Fin 255)\<rparr> 9 =
   Inr [(''8928308280fffff'', Fin 131)]"
  using aggregate_ignores_nodata
    [where idx = one_cell and resolution = 9 and c = "''8928308280fffff''"
       and r = "\<lparr>array = [[Fin 7, Fin 255]], transform = north_up, nodata = Some (Fin 255)\<rparr>"
       and i = 7 and j = 255 and n = 1]
  by (simp add: one_cell_def)

text \<open>
  C1 as stated fails: with the sentinel \<open>-9999\<close> declared, one pixel of value 5 and two
  sentinel pixels in one cell give the float64 nearest to \<open>(5 - 9999 - 9999) / 3\<close>
  (-6664.333333333333), not 5.
\<close>

theorem aggregate_sentinel_counterexample:
  "nodata raster_sentinel = Some (Fin (- 9999)) \<and>
   array raster_sentinel = [[Fin 5, Fin (- 9999), Fin (- 9999)]] \<and>
   aggregate one_cell raster_sentinel 9 =
     Inr [(''8928308280fffff'', Fin (- 7327511991375189 / 1099511627776))] \<and>
   round64 (- 19993 / 3) = Fin (- 7327511991375189 / 1099511627776) \<and>
   aggregate one_cell raster_sentinel 9 \<noteq> Inr [(''8928308280fffff'', Fin 5)]"
proof -
  have r: "round64 (- 19993 / 3) = Fin (- 7327511991375189 / 1099511627776)"
    by (simp add: round64_eval)
  have pv: "pixel_values one_cell raster_sentinel 9 =
      Inr (map (Pair ''8928308280fffff'') [Fin 5, Fin (- 9999), Fin (- 9999)])"
    by (rule pixel_values_single_row) (simp_all add: one_cell_def raster_sentinel_def)
  have "mean_skipna (map (\<lambda>k. Fin (of_int k)) [5, - 9999, - 9999]) =
        fdiv (Fin (of_int (sum_list [5, - 9999, - 9999]))) (Fin (real (length [5, - 9999, - 9999 :: int])))"
    by (rule mean_skipna_of_int) simp
  then have m: "mean_skipna [Fin 5, Fin (- 9999), Fin (- 9999)] =
        Fin (- 7327511991375189 / 1099511627776)"
    using r by simp
  have a: "aggregate one_cell raster_sentinel 9 =
     Inr [(''8928308280fffff'', Fin (- 7327511991375189 / 1099511627776))]"
    using groupby_mean_one_cell [of "[Fin 5, Fin (- 9999), Fin (- 9999)]" "''8928308280fffff''"]
    by (simp add: aggregate_def pv m)
  show ?thesis
    using a r by (simp add: raster_sentinel_def)
qed

section \<open>Claims about normalisation\<close>
















section \<open>Claims about the census summary\<close>

lemma assign_Inr_D:
  "assign_h3_to_population idx s p resolution = Inr (s', q) \<Longrightarrow>
   \<exists>hs. h3_column idx (s p) resolution = Inr hs \<and>
        s' = s(p := (s p)\<lparr>h3_index := Some hs\<rparr>) \<and> q = p"
  by (auto simp: assign_h3_to_population_def split: sum.splits)

lemma h3_column_length:
  "h3_column idx gf resolution = Inr hs \<Longrightarrow> length hs = length (features gf)"
  by (simp add: h3_column_def collect_length)

lemma group_of_zip_map:
  "group_of k (zip hs (map f fts)) = map (\<lambda>q. f (snd q)) (filter (\<lambda>q. fst q = k) (zip hs fts))"
proof -
  have "zip hs (map f fts) = map (\<lambda>q. (fst q, f (snd q))) (zip hs fts)"
    by (simp add: zip_map2 case_prod_beta)
  then show ?thesis
    by (simp add: group_of_def filter_map comp_def)
qed

lemma group_keys_zip:
  "length hs = length ys \<Longrightarrow> group_keys (zip hs ys) = sort (remdups hs)"
  by (simp add: group_keys_def)

lemma ncols_zip_attrs:
  assumes "k \<in> set hs" and "length hs = length fts"
  shows "ncols (zip hs (map (\<lambda>ft. [col_T ft, col_M ft, col_F ft, col_EMP ft]) fts)) = 4"
proof -
  from assms obtain h hs' ft fts' where "hs = h # hs'" "fts = ft # fts'"
    by (cases hs; cases fts) auto
  then show ?thesis by (simp add: ncols_def)
qed

lemma groupby_sum_selected:
  assumes "length hs = length fts"
  shows "groupby_sum [dT, dM, dF, dE]
           (zip hs (map (\<lambda>ft. [col_T ft, col_M ft, col_F ft, col_EMP ft]) fts)) =
     map (\<lambda>k. (k, [cell_total dT col_T k hs fts, cell_total dM col_M k hs fts,
                    cell_total dF col_F k hs fts, cell_total dE col_EMP k hs fts]))
       (sort (remdups hs))"
proof -
  let ?tbl = "zip hs (map (\<lambda>ft. [col_T ft, col_M ft, col_F ft, col_EMP ft]) fts)"
  have keys: "group_keys ?tbl = sort (remdups hs)"
    using assms by (simp add: group_keys_zip)
  have up: "[0..<4] = [0, 1, 2, Suc 2]"
    by (simp add: upt_rec)
  have "map (\<lambda>i. sum_dtype ([dT, dM, dF, dE] ! i) (map (\<lambda>vs. vs ! i) (group_of k ?tbl)))
          [0..<ncols ?tbl] =
        [cell_total dT col_T k hs fts, cell_total dM col_M k hs fts,
         cell_total dF col_F k hs fts, cell_total dE col_EMP k hs fts]"
    if "k \<in> set (sort (remdups hs))" for k
  proof -
    have "k \<in> set hs" using that by simp
    then have "ncols ?tbl = 4" using assms by (rule ncols_zip_attrs)
    then show ?thesis
      by (simp add: up group_of_zip_map cell_total_def comp_def)
  qed
  then show ?thesis
    by (simp add: groupby_sum_def keys)
qed

lemma summed_dtypes_selected:
  "summed_dtypes [dT, dM, dF, dE]
     (map (\<lambda>k. (k, [cell_total dT col_T k hs fts, cell_total dM col_M k hs fts,
                    cell_total dF col_F k hs fts, cell_total dE col_EMP k hs fts]))
        (sort (remdups hs))) =
   [summed_dtype dT col_T hs fts, summed_dtype dM col_M hs fts,
    summed_dtype dF col_F hs fts, summed_dtype dE col_EMP hs fts]"
proof -
  have up: "[0..<4] = [0, 1, 2, Suc 2]"
    by (simp add: upt_rec)
  show ?thesis
    by (simp add: summed_dtypes_def summed_dtype_def up comp_def)
qed

lemma population_summary_rows:
  assumes "h3_column idx (s p) resolution = Inr hs"
  shows "population_summary idx s p resolution =
     Inr (map (\<lambda>k. (k, [cell_total (dtype_T (s p)) col_T k hs (features (s p)),
                         cell_total (dtype_M (s p)) col_M k hs (features (s p)),
                         cell_total (dtype_F (s p)) col_F k hs (features (s p)),
                         cell_total (dtype_EMP (s p)) col_EMP k hs (features (s p)),
                         fdiv (to_float64 (summed_dtype (dtype_EMP (s p)) col_EMP hs (features (s p)))
                                (mul100 (summed_dtype (dtype_EMP (s p)) col_EMP hs (features (s p)))
                                   (cell_total (dtype_EMP (s p)) col_EMP k hs (features (s p)))))
                              (to_float64 (summed_dtype (dtype_T (s p)) col_T hs (features (s p)))
                                 (cell_total (dtype_T (s p)) col_T k hs (features (s p))))]))
            (sort (remdups hs)))"
proof -
  have len: "length hs = length (features (s p))"
    using assms by (rule h3_column_length)
  have a: "assign_h3_to_population idx s p resolution =
     Inr (s(p := (s p)\<lparr>h3_index := Some hs\<rparr>), p)"
    using assms by (simp add: assign_h3_to_population_def)
  show ?thesis
    by (simp add: population_summary_def a select_columns_def selected_dtypes_def Let_def
        groupby_sum_selected [OF len] summed_dtypes_selected add_EMP_PERC_def EMP_PERC_def
        comp_def)
qed

lemma population_summary_Inr_D:
  "population_summary idx s p resolution = Inr tbl \<Longrightarrow>
   \<exists>hs. h3_column idx (s p) resolution = Inr hs"
  by (auto simp: population_summary_def assign_h3_to_population_def split: sum.splits)

lemma wrap32_id: "- (2 ^ 31) \<le> x \<Longrightarrow> x < 2 ^ 31 \<Longrightarrow> wrap 32 x = x"
  by (simp add: wrap_def)

lemma wrap64_id: "- (2 ^ 63) \<le> x \<Longrightarrow> x < 2 ^ 63 \<Longrightarrow> wrap 64 x = x"
  by (simp add: wrap_def)

lemma int_of_of_int [simp]: "int_of (Fin (of_int k)) = k"
  by simp


lemma mul100_of_int:
  assumes "\<bar>e\<bar> \<le> 21474836"
  shows "mul100 dt (Fin (of_int e)) = Fin (of_int (e * 100))"
proof (cases dt)
  case Int32
  have "- (2 ^ 31) \<le> e * 100" and "e * 100 < 2 ^ 31"
    using assms by simp_all
  then have "wrap 32 (e * 100) = e * 100"
    by (rule wrap32_id)
  then show ?thesis using Int32 by (simp add: mul100_def)
next
  case Int64
  have "- (2 ^ 63) \<le> e * 100" and "e * 100 < 2 ^ 63"
    using assms by simp_all
  then have "wrap 64 (e * 100) = e * 100"
    by (rule wrap64_id)
  then show ?thesis using Int64 by (simp add: mul100_def)
next
  case Float64
  have "\<bar>e * 100\<bar> \<le> 2 ^ 53" using assms by simp
  then have "round64 (of_int (e * 100)) = Fin (of_int (e * 100))"
    by (rule round64_of_int)
  then show ?thesis using Float64 by (simp add: mul100_def)
qed

lemma to_float64_of_int:
  "\<bar>k\<bar> \<le> 2 ^ 53 \<Longrightarrow> to_float64 dt (Fin (of_int k)) = Fin (of_int k)"
  by (simp add: to_float64_def round64_of_int)

lemma to_float64_zero [simp]: "to_float64 dt (Fin 0) = Fin 0"
  by (simp add: to_float64_def)

lemma fdiv_by_zero: "fdiv v (Fin 0) = NaN \<or> fdiv v (Fin 0) = PInf \<or> fdiv v (Fin 0) = NInf"
  by (cases v) simp_all


lemmas summary_eval =
  population_summary_def assign_h3_to_population_def h3_column_def select_columns_def
  selected_dtypes_def groupby_sum_def summed_dtypes_def group_keys_def group_of_def ncols_def
  add_EMP_PERC_def EMP_PERC_def sum_dtype_def sum_result_dtype_def fits32_def mul100_def
  to_float64_def wrap_def store_of_def Let_def upt_rec

lemma hundred_thirds: "round64 (100 / 3) = Fin (4691249611844267 / 140737488355328)"
  by (simp add: round64_eval)



text \<open>
  C8 (as amended).  For a cell whose summed total is zero the ratio is computed by the
  column division and no condition is signalled: the row is emitted with its five
  columns, and its ratio is NaN or an infinity.  It is \<open>+inf\<close> when the summed employed
  count is positive, \<open>-inf\<close> when it is negative and NaN when it is zero, as long as one
  hundred times that count does not overflow the integer type of the column, for which
  a count of at most 21474836 in absolute value is enough.
\<close>

theorem EMP_PERC_zero_total:
  assumes "population_summary idx s p resolution = Inr tbl"
    and "(k, vs) \<in> set tbl" and "vs ! 0 = Fin 0"
  shows "length vs = 5 \<and> (vs ! 4 = NaN \<or> vs ! 4 = PInf \<or> vs ! 4 = NInf) \<and>
    (\<forall>e. vs ! 3 = Fin (of_int e) \<and> \<bar>e\<bar> \<le> 21474836 \<longrightarrow>
       vs ! 4 = (if e = 0 then NaN else if 0 < e then PInf else NInf))"
proof -
  from assms(1) obtain hs where hs: "h3_column idx (s p) resolution = Inr hs"
    using population_summary_Inr_D by blast
  from population_summary_rows [of idx s p resolution hs] hs assms(1,2)
  obtain a b c d dE dT where vs: "vs = [a, b, c, d, fdiv (to_float64 dE (mul100 dE d)) (to_float64 dT a)]"
    by auto
  with assms(3) have a: "a = Fin 0" by simp
  have v4: "vs ! 4 = fdiv (to_float64 dE (mul100 dE d)) (Fin 0)"
    by (simp add: vs a)
  have any: "vs ! 4 = NaN \<or> vs ! 4 = PInf \<or> vs ! 4 = NInf"
    unfolding v4 by (rule fdiv_by_zero)
  have sign: "vs ! 4 = (if e = 0 then NaN else if 0 < e then PInf else NInf)"
    if "vs ! 3 = Fin (of_int e) \<and> \<bar>e\<bar> \<le> 21474836" for e
  proof -
    from that have d: "d = Fin (of_int e)" and e: "\<bar>e\<bar> \<le> 21474836"
      by (simp_all add: vs)
    have "\<bar>e * 100\<bar> \<le> 2 ^ 53" using e by simp
    then have "to_float64 dE (mul100 dE d) = Fin (of_int (e * 100))"
      by (simp only: d mul100_of_int [OF e] to_float64_of_int)
    then show ?thesis by (simp add: v4)
  qed
  from vs any sign show ?thesis by simp
qed

theorem EMP_PERC_zero_total_witness:
  "population_summary one_cell (store_of census_empty_areas) 0 9 =
     Inr [(''8928308280fffff'', [Fin 0, Fin 0, Fin 0, Fin 5, PInf])] \<and>
   [Fin 0, Fin 0, Fin 0, Fin 5, PInf] ! 4 = PInf"
proof -
  have h: "population_summary one_cell (store_of census_empty_areas) 0 9 =
     Inr [(''8928308280fffff'', [Fin 0, Fin 0, Fin 0, Fin 5, PInf])]"
    by (simp add: summary_eval census_empty_areas_def one_cell_def)
  have "[Fin 0, Fin 0, Fin 0, Fin 5, PInf] ! 4 = PInf"
    using EMP_PERC_zero_total [OF h, of "''8928308280fffff''" "[Fin 0, Fin 0, Fin 0, Fin 5, PInf]"]
    by simp
  with h show ?thesis by simp
qed

text \<open>
  C8 as stated fails: of two cells with a total of zero, the one with five employed
  persons gets the ratio \<open>+inf\<close> and the one with none gets NaN; the table is returned
  and nothing is signalled.
\<close>

theorem EMP_PERC_zero_total_counterexample:
  "population_summary two_cells (store_of census_empty_areas) 0 7 =
     Inr [(''871fa4b6affffff'', [Fin 0, Fin 0, Fin 0, Fin 5, PInf]),
          (''871fa4b6bffffff'', [Fin 0, Fin 0, Fin 0, Fin 0, NaN])]"
  by (simp add: summary_eval census_empty_areas_def two_cells_def)

text \<open>
  In a 32-bit column the product \<open>EMP * 100\<close> wraps around: a count of 21474837 gives a
  negative product, so that the ratio over a total of zero is \<open>-inf\<close>, and the ratio over
  the total 42949674 is about -50 instead of 50.
\<close>

lemma EMP_PERC_int32_wraps:
  "wrap 32 (21474837 * 100) = - 2147483596 \<and>
   population_summary one_cell (store_of census_wrap) 0 9 =
     Inr [(''8928308280fffff'', [Fin 0, Fin 0, Fin 0, Fin 21474837, NInf])]"
  by (simp add: summary_eval census_wrap_def one_cell_def)

lemma EMP_PERC_int32_example:
  "EMP_PERC [Int32, Int32, Int32, Int32] [Fin 42949674, Fin 0, Fin 0, Fin 21474837] =
     Fin (- 879609259622401 / 17592186044416)"
  by (simp add: EMP_PERC_def mul100_def to_float64_def wrap_def round64_eval)

text \<open>
  C10 (as amended).  \<open>assign_h3_to_population\<close> changes the table it is given and returns
  the reference it was given, not a new table: after the call the caller's table holds
  the column \<open>h3_index\<close> that was computed; its features and the dtypes of its columns
  are as before, and every other table of the store is unchanged.
\<close>

theorem assign_in_place:
  assumes "assign_h3_to_population idx s p resolution = Inr (s', q)"
  shows "q = p \<and>
     (\<exists>hs. h3_column idx (s p) resolution = Inr hs \<and> h3_index (s' p) = Some hs) \<and>
     features (s' p) = features (s p) \<and>
     selected_dtypes (s' p) = selected_dtypes (s p) \<and>
     (\<forall>p'. p' \<noteq> p \<longrightarrow> s' p' = s p')"
  using assign_Inr_D [OF assms] by (auto simp: selected_dtypes_def)

theorem assign_in_place_witness:
  "assign_h3_to_population by_resolution (store_of census) 0 8 =
     Inr ((store_of census)
            (0 := census\<lparr>h3_index := Some [''8828308281fffff'', ''8828308281fffff'']\<rparr>), 0) \<and>
   features (((store_of census)
            (0 := census\<lparr>h3_index := Some [''8828308281fffff'', ''8828308281fffff'']\<rparr>)) 0) =
     features (store_of census 0) \<and>
   ((store_of census)
            (0 := census\<lparr>h3_index := Some [''8828308281fffff'', ''8828308281fffff'']\<rparr>)) 1 =
     store_of census 1"
proof -
  have h: "assign_h3_to_population by_resolution (store_of census) 0 8 =
     Inr ((store_of census)
            (0 := census\<lparr>h3_index := Some [''8828308281fffff'', ''8828308281fffff'']\<rparr>), 0)"
    by (simp add: assign_h3_to_population_def h3_column_def store_of_def census_def
        by_resolution_def)
  from assign_in_place [OF h] h show ?thesis by simp
qed

text \<open>
  C10 as stated fails: the caller's table has no column \<open>h3_index\<close> before the call and
  has one after it, and the reference returned is the caller's own.
\<close>

theorem assign_in_place_counterexample:
  "h3_index (store_of census 0) = None \<and>
   assign_h3_to_population one_cell (store_of census) 0 9 =
     Inr ((store_of census)
            (0 := census\<lparr>h3_index := Some [''8928308280fffff'', ''8928308280fffff'']\<rparr>), 0) \<and>
   h3_index (((store_of census)
            (0 := census\<lparr>h3_index := Some [''8928308280fffff'', ''8928308280fffff'']\<rparr>)) 0) =
     Some [''8928308280fffff'', ''8928308280fffff'']"
  by (simp add: assign_h3_to_population_def h3_column_def store_of_def census_def one_cell_def)

section \<open>Claims about the join\<close>

lemma group_of_distinct:
  "distinct (map fst right) \<Longrightarrow>
   group_of k right = (case map_of right k of None \<Rightarrow> [] | Some v \<Rightarrow> [v])"
proof (induction right)
  case Nil
  then show ?case by (simp add: group_of_def)
next
  case (Cons q right)
  have ih: "group_of k right = (case map_of right k of None \<Rightarrow> [] | Some v \<Rightarrow> [v])"
    using Cons by simp
  show ?case
  proof (cases "fst q = k")
    case True
    then have "k \<notin> fst ` set right" using Cons.prems by auto
    then have "map_of right k = None" by (simp add: map_of_eq_None_iff)
    then have "group_of k right = []" using ih by simp
    then show ?thesis using True by (cases q) (simp add: group_of_def)
  next
    case False
    then show ?thesis using ih by (cases q) (auto simp: group_of_def)
  qed
qed

lemma join_Nil: "join [] right = []"
  by (simp add: join_def merge_left_def dropna_def)

lemma join_Cons:
  "join (p # left) right =
     dropna (case group_of (fst p) right of
               [] \<Rightarrow> [(fst p, snd p @ [NaN])]
             | ms \<Rightarrow> map (\<lambda>v. (fst p, snd p @ [v])) ms) @ join left right"
  by (simp add: join_def merge_left_def dropna_def)

lemma join_Cons_missing:
  "group_of (fst p) right = [] \<Longrightarrow> join (p # left) right = join left right"
  by (simp add: join_Cons dropna_def notna_def)

lemma join_Cons_single:
  "group_of (fst p) right = [v] \<Longrightarrow>
   join (p # left) right =
     (if list_all notna (snd p) \<and> notna v then [(fst p, snd p @ [v])] else []) @ join left right"
  by (simp add: join_Cons dropna_def)

lemma join_rows:
  assumes "distinct (map fst right)"
  shows "join left right =
     map (\<lambda>p. (fst p, snd p @ [the (map_of right (fst p))]))
       (filter (\<lambda>p. fst p \<in> fst ` set right \<and> list_all notna (snd p) \<and>
                     notna (the (map_of right (fst p)))) left)"
proof (induction left)
  case Nil
  show ?case by (simp add: join_Nil)
next
  case (Cons p left)
  show ?case
  proof (cases "map_of right (fst p)")
    case None
    then have "group_of (fst p) right = []"
      using group_of_distinct [OF assms, of "fst p"] by simp
    moreover have "fst p \<notin> fst ` set right"
      using None by (simp add: map_of_eq_None_iff)
    ultimately show ?thesis
      using Cons.IH by (simp add: join_Cons_missing)
  next
    case (Some v)
    then have "group_of (fst p) right = [v]"
      using group_of_distinct [OF assms, of "fst p"] by simp
    moreover have "fst p \<in> fst ` set right"
      using Some by (metis map_of_eq_None_iff option.distinct(1))
    ultimately show ?thesis
      using Cons.IH Some by (simp add: join_Cons_single)
  qed
qed

text \<open>
  C5.  For a right table with one row per cell, the join (left merge, then \<open>dropna\<close>)
  returns, in the order of the left table, exactly the left rows whose cell has a row in
  the right table and that hold no missing value in any column once extended by the
  right value.  So a cell of the left table that is absent from the right table yields
  no row, every cell of the result occurs in both inputs, no row of the result holds a
  missing value, and the result has one row per cell when the left table has.
\<close>

theorem join_keeps_complete_rows:
  assumes "distinct (map fst right)"
  shows "join left right =
     map (\<lambda>p. (fst p, snd p @ [the (map_of right (fst p))]))
       (filter (\<lambda>p. fst p \<in> fst ` set right \<and> list_all notna (snd p) \<and>
                     notna (the (map_of right (fst p)))) left) \<and>
     (\<forall>k. k \<notin> fst ` set right \<longrightarrow> k \<notin> fst ` set (join left right)) \<and>
     (\<forall>k. k \<in> fst ` set (join left right) \<longrightarrow> k \<in> fst ` set left \<and> k \<in> fst ` set right) \<and>
     (\<forall>p\<in>set (join left right). list_all notna (snd p)) \<and>
     (distinct (map fst left) \<longrightarrow> distinct (map fst (join left right)))"
proof -
  let ?keep = "\<lambda>p. fst p \<in> fst ` set right \<and> list_all notna (snd p) \<and>
                     notna (the (map_of right (fst p)))"
  have eq: "join left right =
     map (\<lambda>p. (fst p, snd p @ [the (map_of right (fst p))])) (filter ?keep left)"
    using assms by (rule join_rows)
  have keys: "map fst (join left right) = map fst (filter ?keep left)"
    by (simp add: eq comp_def)
  have k3: "\<forall>k. k \<in> fst ` set (join left right) \<longrightarrow> k \<in> fst ` set left \<and> k \<in> fst ` set right"
  proof (intro allI impI)
    fix k assume "k \<in> fst ` set (join left right)"
    then have "k \<in> set (map fst (filter ?keep left))"
      using keys by (metis set_map)
    then show "k \<in> fst ` set left \<and> k \<in> fst ` set right" by auto
  qed
  then have k2: "\<forall>k. k \<notin> fst ` set right \<longrightarrow> k \<notin> fst ` set (join left right)"
    by blast
  have nn: "\<forall>p\<in>set (join left right). list_all notna (snd p)"
    by (simp add: join_def dropna_def)
  have d: "distinct (map fst left) \<longrightarrow> distinct (map fst (join left right))"
    by (simp add: keys distinct_map_filter)
  from eq k2 k3 nn d show ?thesis by blast
qed

theorem join_keeps_complete_rows_witness:
  "join [(''871fa4b6affffff'', [Fin 1]), (''871fa4b6bffffff'', [Fin 2])]
        [(''871fa4b6affffff'', Fin 1)] =
     [(''871fa4b6affffff'', [Fin 1, Fin 1])]"
proof -
  have h: "distinct (map fst [(''871fa4b6affffff'', Fin 1)])" by simp
  show ?thesis
    using join_keeps_complete_rows [OF h, of "[(''871fa4b6affffff'', [Fin 1]), (''871fa4b6bffffff'', [Fin 2])]"]
    by (simp add: notna_def)
qed

text \<open>
  C9 (as amended).  The join takes two tables and returns a table; it reads no
  resolution and makes no check.  For two tables that have no cell identifier in
  common, which is the case of layers aggregated at different resolutions, it returns
  the empty table.
\<close>

theorem join_disjoint_keys_empty:
  assumes "fst ` set left \<inter> fst ` set right = {}"
  shows "join left right = []"
  using assms
proof (induction left)
  case Nil
  show ?case by (simp add: join_Nil)
next
  case (Cons p left)
  have "fst p \<notin> fst ` set right" using Cons.prems by auto
  then have "group_of (fst p) right = []"
    by (force simp: group_of_def filter_empty_conv)
  moreover have "join left right = []"
    using Cons by auto
  ultimately show ?case by (simp add: join_Cons_missing)
qed

theorem join_disjoint_keys_empty_witness:
  "join [(''871fa4b6affffff'', [Fin 1]), (''871fa4b6bffffff'', [Fin 2])]
        [(''861fa4b6fffffff'', Fin 3)] = []"
proof -
  have h: "fst ` set [(''871fa4b6affffff'', [Fin 1::pyfloat]), (''871fa4b6bffffff'', [Fin 2])] \<inter>
           fst ` set [(''861fa4b6fffffff'', Fin 3::pyfloat)] = {}"
    by simp
  show ?thesis
    using join_disjoint_keys_empty [OF h] .
qed

text \<open>
  C9 as stated fails: the census summary built at resolution 8 and the raster table
  built at resolution 9 are joined without complaint, and the result is empty.
\<close>

theorem join_resolution_counterexample:
  "population_summary by_resolution (store_of census) 0 8 =
     Inr [(''8828308281fffff'',
           [Fin 30, Fin 15, Fin 15, Fin 10, Fin (4691249611844267 / 140737488355328)])] \<and>
   aggregate by_resolution raster_2x2 9 = Inr [(''8928308280fffff'', Fin (5 / 2))] \<and>
   join [(''8828308281fffff'',
          [Fin 30, Fin 15, Fin 15, Fin 10, Fin (4691249611844267 / 140737488355328)])]
        [(''8928308280fffff'', Fin (5 / 2))] = []"
proof (intro conjI)
  have "fdiv (Fin 1000) (Fin 30) = Fin (4691249611844267 / 140737488355328)"
    using hundred_thirds by simp
  then show "population_summary by_resolution (store_of census) 0 8 =
     Inr [(''8828308281fffff'',
           [Fin 30, Fin 15, Fin 15, Fin 10, Fin (4691249611844267 / 140737488355328)])]"
    by (simp add: summary_eval census_def by_resolution_def)
  have pv: "pixel_values by_resolution raster_2x2 9 =
     Inr (map (Pair ''8928308280fffff'') [Fin 1, Fin 2, Fin 3, Fin 4])"
    by (simp add: pixel_values_def pixel_indices_def shape0_def shape1_def pixel_tuple_def
        affine_mul_def by_resolution_def raster_2x2_def upt_rec)
  have "mean_skipna (map (\<lambda>k. Fin (of_int k)) [1, 2, 3, 4]) =
        fdiv (Fin (of_int (sum_list [1, 2, 3, 4]))) (Fin (real (length [1, 2, 3, 4 :: int])))"
    by (rule mean_skipna_of_int) simp
  moreover have "round64 (5 / 2) = Fin (5 / 2)"
    by (simp add: round64_eval)
  ultimately have m: "mean_skipna [Fin 1, Fin 2, Fin 3, Fin 4] = Fin (5 / 2)"
    by simp
  show "aggregate by_resolution raster_2x2 9 = Inr [(''8928308280fffff'', Fin (5 / 2))]"
    using groupby_mean_one_cell [of "[Fin 1, Fin 2, Fin 3, Fin 4]" "''8928308280fffff''"]
    by (simp add: aggregate_def pv m)
  show "join [(''8828308281fffff'',
          [Fin 30, Fin 15, Fin 15, Fin 10, Fin (4691249611844267 / 140737488355328)])]
        [(''8928308280fffff'', Fin (5 / 2))] = []"
    by (simp add: join_def merge_left_def dropna_def group_of_def notna_def)
qed

section \<open>Claims about the grid indexer\<close>

text \<open>
  C6.  On the model of \<open>index\<close> taken from the specification: a latitude or longitude out
  of range gives \<open>InvalidCoordinate\<close>; a resolution out of range, with the coordinate in
  range, gives \<open>InvalidResolution\<close>; no invalid input gives a cell, so nothing is clamped.
  The two callers of the repository hand the coordinate of every pixel and of every
  record to the indexer as it is, and its error ends them: with this indexer,
  \<open>aggregate\<close> and \<open>assign_h3_to_population\<close> return an error as soon as one pixel or one
  record has an invalid coordinate or the resolution is invalid.
\<close>

theorem index_rejects_invalid_input:
  "((lat < - 90 \<or> 90 < lat \<or> lon < - 180 \<or> 180 < lon) \<longrightarrow>
      index cell lat lon resolution = Inl InvalidCoordinate) \<and>
   (- 90 \<le> lat \<and> lat \<le> 90 \<and> - 180 \<le> lon \<and> lon \<le> 180 \<and>
    (resolution < 0 \<or> 15 < resolution) \<longrightarrow>
      index cell lat lon resolution = Inl InvalidResolution) \<and>
   ((lat < - 90 \<or> 90 < lat \<or> lon < - 180 \<or> 180 < lon \<or> resolution < 0 \<or> 15 < resolution) \<longrightarrow>
      (\<forall>c. index cell lat lon resolution \<noteq> Inr c)) \<and>
   ((row, col) \<in> set (pixel_indices (array r)) \<and>
    affine_mul (transform r) (col, row) = (lon, lat) \<and>
    (lat < - 90 \<or> 90 < lat \<or> lon < - 180 \<or> 180 < lon \<or> resolution < 0 \<or> 15 < resolution) \<longrightarrow>
      (\<exists>e. aggregate (index cell) r resolution = Inl e)) \<and>
   (geom \<in> set (features (s population_data)) \<and> geom_y geom = lat \<and> geom_x geom = lon \<and>
    (lat < - 90 \<or> 90 < lat \<or> lon < - 180 \<or> 180 < lon \<or> resolution < 0 \<or> 15 < resolution) \<longrightarrow>
      (\<exists>e. assign_h3_to_population (index cell) s population_data resolution = Inl e))"
proof -
  have bad: "\<exists>e. index cell lat lon resolution = Inl e"
    if "lat < - 90 \<or> 90 < lat \<or> lon < - 180 \<or> 180 < lon \<or> resolution < 0 \<or> 15 < resolution"
    using that by (auto simp: index_def valid_coordinate_def valid_resolution_def)
  have c1: "(lat < - 90 \<or> 90 < lat \<or> lon < - 180 \<or> 180 < lon) \<longrightarrow>
      index cell lat lon resolution = Inl InvalidCoordinate"
    by (auto simp: index_def valid_coordinate_def)
  have c2: "- 90 \<le> lat \<and> lat \<le> 90 \<and> - 180 \<le> lon \<and> lon \<le> 180 \<and>
    (resolution < 0 \<or> 15 < resolution) \<longrightarrow>
      index cell lat lon resolution = Inl InvalidResolution"
    by (auto simp: index_def valid_coordinate_def valid_resolution_def)
  have c3: "(lat < - 90 \<or> 90 < lat \<or> lon < - 180 \<or> 180 < lon \<or> resolution < 0 \<or> 15 < resolution) \<longrightarrow>
      (\<forall>c. index cell lat lon resolution \<noteq> Inr c)"
    using bad by auto
  have c4: "(row, col) \<in> set (pixel_indices (array r)) \<and>
    affine_mul (transform r) (col, row) = (lon, lat) \<and>
    (lat < - 90 \<or> 90 < lat \<or> lon < - 180 \<or> 180 < lon \<or> resolution < 0 \<or> 15 < resolution) \<longrightarrow>
      (\<exists>e. aggregate (index cell) r resolution = Inl e)"
  proof (intro impI, elim conjE)
    assume m: "(row, col) \<in> set (pixel_indices (array r))"
      and t: "affine_mul (transform r) (col, row) = (lon, lat)"
      and b: "lat < - 90 \<or> 90 < lat \<or> lon < - 180 \<or> 180 < lon \<or> resolution < 0 \<or> 15 < resolution"
    from bad [OF b] obtain e where "index cell lat lon resolution = Inl e" ..
    then have "pixel_tuple (index cell) r resolution (row, col) = Inl e"
      by (simp add: pixel_tuple_def t)
    with m obtain e' where "pixel_values (index cell) r resolution = Inl e'"
      unfolding pixel_values_def using collect_raises by metis
    then show "\<exists>e. aggregate (index cell) r resolution = Inl e"
      by (simp add: aggregate_def)
  qed
  have c5: "geom \<in> set (features (s population_data)) \<and> geom_y geom = lat \<and> geom_x geom = lon \<and>
    (lat < - 90 \<or> 90 < lat \<or> lon < - 180 \<or> 180 < lon \<or> resolution < 0 \<or> 15 < resolution) \<longrightarrow>
      (\<exists>e. assign_h3_to_population (index cell) s population_data resolution = Inl e)"
  proof (intro impI, elim conjE)
    assume m: "geom \<in> set (features (s population_data))"
      and y: "geom_y geom = lat" and x: "geom_x geom = lon"
      and b: "lat < - 90 \<or> 90 < lat \<or> lon < - 180 \<or> 180 < lon \<or> resolution < 0 \<or> 15 < resolution"
    from bad [OF b] obtain e where "index cell lat lon resolution = Inl e" ..
    then have "(\<lambda>g. index cell (geom_y g) (geom_x g) resolution) geom = Inl e"
      by (simp add: x y)
    with m obtain e' where "h3_column (index cell) (s population_data) resolution = Inl e'"
      unfolding h3_column_def using collect_raises by metis
    then show "\<exists>e. assign_h3_to_population (index cell) s population_data resolution = Inl e"
      by (simp add: assign_h3_to_population_def)
  qed
  from c1 c2 c3 c4 c5 show ?thesis by blast
qed

theorem index_rejects_invalid_input_witness:
  "index some_cell 100 4 7 = Inl InvalidCoordinate \<and>
   index some_cell 51 4 16 = Inl InvalidResolution \<and>
   index some_cell 51 4 7 = Inr ''8928308280fffff''"
proof -
  have "index some_cell 100 4 7 = Inl InvalidCoordinate"
    using index_rejects_invalid_input [where lat = 100 and lon = 4 and resolution = 7 and cell = some_cell]
    by simp
  moreover have "index some_cell 51 4 16 = Inl InvalidResolution"
    using index_rejects_invalid_input [where lat = 51 and lon = 4 and resolution = 16 and cell = some_cell]
    by simp
  moreover have "index some_cell 51 4 7 = Inr ''8928308280fffff''"
    by (simp add: index_def valid_coordinate_def valid_resolution_def some_cell_def)
  ultimately show ?thesis by simp
qed

end
